theory Spec2Isabelle
  imports Complex_Main
begin

section \<open>The game of src/app/GameCanvas.tsx\<close>

text \<open>
  The component keeps its game state in mutable cells (\<open>useRef\<close>) and three React state
  variables. The model below is one record holding all of them, and every handler of the
  component is a function from record to record.

  Conventions of the model:
  \<^item> A JavaScript number is an IEEE double. The model keeps the value of a double as a
    real, and rounds the result of an addition or multiplication of \<open>physics\<close> and of
    \<open>spawnPipePair\<close> to the nearest double with \<open>fl\<close> (53 significant bits, ties to the
    even significand). Infinities, NaN and overflow are not modelled. The x of a pipe and
    the score take integer and half-integer values far below \<open>2^53\<close>, on which the
    additions of the source are exact; they are written without \<open>fl\<close>, and so are the
    sums that the source only compares (in \<open>detectCollision\<close>, in the test of a crossed
    pipe and in the ground check).
  \<^item> \<open>Math.random()\<close> is a parameter \<open>r\<close> of the functions that draw it, with
    \<open>0 \<le> r < 1\<close>.
  \<^item> Drawing on the canvas and playing sounds write no game state and are left out.
  \<^item> React state (\<open>loaded\<close>, \<open>running\<close>, \<open>showMenu\<close>) is updated at once by its setter, and
    a handler reads its current value: the delay until the next render, during which a
    handler still sees the old value, is not modelled.
  \<^item> The effect keyed on \<open>running\<close>, which requests the first animation frame of \<open>step\<close>
    when \<open>running\<close> becomes true, is folded into \<open>setRunning\<close>. Its cleanup cancels that
    first request only, which has been delivered by the time \<open>running\<close> becomes false.
  \<^item> The handlers run one at a time, as on the single thread of the browser.
\<close>

subsection \<open>Numbers\<close>

text \<open>
  \<open>fl a\<close> is the double nearest to the real \<open>a\<close>: with \<open>expo \<bar>a\<bar>\<close> the exponent of \<open>a\<close>
  (\<open>2^e \<le> \<bar>a\<bar> < 2^(e+1)\<close>), \<open>a\<close> is rounded to a multiple of \<open>2^(e-52)\<close>, a tie going to
  the even multiple.
\<close>

definition pow2 :: "int \<Rightarrow> real" where
  "pow2 e = (if 0 \<le> e then 2 ^ nat e else 1 / 2 ^ nat (- e))"

function expo_hi :: "real \<Rightarrow> int" where
  "expo_hi a = (if 2 \<le> a then expo_hi (a / 2) + 1 else 0)"
  by pat_completeness auto
termination
proof (relation "measure (\<lambda>a. nat \<lfloor>a\<rfloor>)")
  show "wf (measure (\<lambda>a::real. nat \<lfloor>a\<rfloor>))" by simp
next
  fix a :: real
  assume a: "2 \<le> a"
  have "a / 2 \<le> a - 1" using a by simp
  then have "\<lfloor>a / 2\<rfloor> \<le> \<lfloor>a - 1\<rfloor>" by (rule floor_mono)
  moreover have "0 < \<lfloor>a\<rfloor>" using a by simp
  ultimately show "(a / 2, a) \<in> measure (\<lambda>a. nat \<lfloor>a\<rfloor>)" by simp
qed

function expo_lo :: "real \<Rightarrow> int" where
  "expo_lo a = (if 0 < a \<and> a < 1 then expo_lo (a * 2) - 1 else 0)"
  by pat_completeness auto
termination
proof (relation "measure (\<lambda>a. nat \<lfloor>1 / a\<rfloor>)")
  show "wf (measure (\<lambda>a::real. nat \<lfloor>1 / a\<rfloor>))" by simp
next
  fix a :: real
  assume a: "0 < a \<and> a < 1"
  then have b: "1 < 1 / a" by simp
  have "1 / (a * 2) \<le> 1 / a - 1 / 2" using a by (simp add: field_simps)
  have "\<lfloor>1 / (a * 2)\<rfloor> < \<lfloor>1 / a\<rfloor>"
  proof (cases "2 \<le> 1 / a")
    case True
    have "1 / (a * 2) = (1 / a) / 2" by simp
    also have "\<dots> \<le> 1 / a - 1" using True by simp
    finally have "\<lfloor>1 / (a * 2)\<rfloor> \<le> \<lfloor>1 / a - 1\<rfloor>" by (rule floor_mono)
    then show ?thesis by simp
  next
    case False
    then have "1 / (a * 2) < 1" using a by (simp add: field_simps)
    moreover have "0 \<le> 1 / (a * 2)" using a by simp
    ultimately have "\<lfloor>1 / (a * 2)\<rfloor> = 0" by (simp add: floor_eq_iff)
    moreover have "1 \<le> \<lfloor>1 / a\<rfloor>" using b by (simp add: le_floor_iff)
    ultimately show ?thesis by simp
  qed
  moreover have "0 < \<lfloor>1 / a\<rfloor>" using b by (simp add: less_floor_iff)
  ultimately show "(a * 2, a) \<in> measure (\<lambda>a. nat \<lfloor>1 / a\<rfloor>)" by simp
qed

declare expo_hi.simps [simp del] expo_lo.simps [simp del]

definition expo :: "real \<Rightarrow> int" where
  "expo a = (if 1 \<le> a then expo_hi a else expo_lo a)"

definition round_even :: "real \<Rightarrow> int" where
  "round_even z =
     (let f = \<lfloor>z\<rfloor>; d = z - of_int f
      in if d < 1 / 2 then f else if 1 / 2 < d then f + 1 else if even f then f else f + 1)"

definition fl :: "real \<Rightarrow> real" where
  "fl a =
     (if a = 0 then 0
      else let u = pow2 (expo \<bar>a\<bar> - 52) in of_int (round_even (a / u)) * u)"

subsection \<open>Constants\<close>

definition BOARD_W :: real where "BOARD_W = 360"
definition BOARD_H :: real where "BOARD_H = 640"
definition BIRD_W :: real where "BIRD_W = 34"
definition BIRD_H :: real where "BIRD_H = 24"
definition BIRD_X :: real where "BIRD_X = BOARD_W / 8"
definition BIRD_Y :: real where "BIRD_Y = BOARD_H / 2"

definition PIPE_W :: real where "PIPE_W = 64"
definition PIPE_H :: real where "PIPE_H = 512"
definition PIPE_X :: real where "PIPE_X = BOARD_W"

definition gravity :: real where "gravity = fl (4 / 10)"
definition FRAME_TICK_RATE :: nat where "FRAME_TICK_RATE = 6"
definition EXPECTED_FRAMES :: nat where "EXPECTED_FRAMES = 4"

subsection \<open>Data\<close>

text \<open>The rectangle of \<open>birdRef\<close>; a \<open>Pipe\<close> is a rectangle with an image and a flag.\<close>

record rect =
  x :: real
  y :: real
  width :: real
  height :: real

datatype pipe_img = TopPipeImg | BottomPipeImg

record pipe = rect +
  img :: pipe_img
  passed :: bool

record game =
  bird :: rect
  velocityY :: real
  pipes :: "pipe list"
  score :: real
  gameOver :: bool
  placePipesInterval :: bool
  frameIndex :: nat
  frameTick :: nat
  loaded :: bool
  running :: bool
  showMenu :: bool
  checks :: nat
  stepRequested :: bool

text \<open>
  \<open>placePipesInterval\<close> is true when the interval handle is not null, and
  \<open>stepRequested\<close> is true when a \<open>requestAnimationFrame(step)\<close> callback is pending.
\<close>

definition initial :: game where
  "initial =
     \<lparr>bird = \<lparr>x = BIRD_X, y = BIRD_Y, width = BIRD_W, height = BIRD_H\<rparr>,
      velocityY = 0, pipes = [], score = 0, gameOver = False,
      placePipesInterval = False, frameIndex = 0, frameTick = 0,
      loaded = False, running = False, showMenu = True, checks = 0,
      stepRequested = False\<rparr>"

subsection \<open>The tick\<close>

definition detectCollision :: "rect \<Rightarrow> pipe \<Rightarrow> bool" where
  "detectCollision a b \<longleftrightarrow>
     x a < x b + width b \<and>
     x a + width a > x b \<and>
     y a < y b + height b \<and>
     y a + height a > y b"

definition animate :: "nat \<Rightarrow> game \<Rightarrow> game" where
  "animate rate s =
     (let s1 = s\<lparr>frameTick := frameTick s + 1\<rparr>
      in if frameTick s1 \<ge> rate
         then s1\<lparr>frameTick := 0,
                 frameIndex := (frameIndex s1 + 1) mod max 1 EXPECTED_FRAMES\<rparr>
         else s1)"

text \<open>One iteration of the loop over the pipes: move, score, collide.\<close>

definition movePipe :: "pipe \<Rightarrow> pipe" where
  "movePipe p = p\<lparr>x := x p + (- 2)\<rparr>"

definition crossed :: "rect \<Rightarrow> pipe \<Rightarrow> bool" where
  "crossed b p \<longleftrightarrow> \<not> passed p \<and> x b > x p + width p"

definition pipeBody :: "rect \<Rightarrow> pipe \<Rightarrow> real \<times> bool \<Rightarrow> pipe \<times> real \<times> bool" where
  "pipeBody b p0 acc =
     (let p = movePipe p0;
          (p1, sc) = (if crossed b p then (p\<lparr>passed := True\<rparr>, fst acc + 1 / 2)
                      else (p, fst acc));
          go = (if detectCollision b p1 then True else snd acc)
      in (p1, sc, go))"

fun pipeLoop :: "rect \<Rightarrow> pipe list \<Rightarrow> real \<times> bool \<Rightarrow> pipe list \<times> real \<times> bool" where
  "pipeLoop b [] acc = ([], acc)"
| "pipeLoop b (p0 # ps) acc =
     (let (p1, acc1) = pipeBody b p0 acc;
          (ps1, acc2) = pipeLoop b ps acc1
      in (p1 # ps1, acc2))"

fun removeOffscreen :: "pipe list \<Rightarrow> pipe list" where
  "removeOffscreen [] = []"
| "removeOffscreen (p # ps) = (if x p < - PIPE_W then removeOffscreen ps else p # ps)"

definition physics :: "game \<Rightarrow> game" where
  "physics s =
     (let s1 = s\<lparr>velocityY := fl (velocityY s + gravity)\<rparr>
      in s1\<lparr>bird := (bird s1)\<lparr>y := fl (y (bird s1) + velocityY s1)\<rparr>\<rparr>)"

definition updatePipes :: "game \<Rightarrow> game" where
  "updatePipes s =
     (let (ps, sc, go) = pipeLoop (bird s) (pipes s) (score s, gameOver s)
      in s\<lparr>pipes := ps, score := sc, gameOver := go\<rparr>)"

definition groundCheck :: "game \<Rightarrow> game" where
  "groundCheck s =
     (if y (bird s) > BOARD_H - BIRD_H then s\<lparr>gameOver := True\<rparr> else s)"

definition setRunning :: "bool \<Rightarrow> game \<Rightarrow> game" where
  "setRunning v s =
     (if v \<and> \<not> running s then s\<lparr>running := True, stepRequested := True\<rparr>
      else s\<lparr>running := v\<rparr>)"

definition finish :: "game \<Rightarrow> game" where
  "finish s =
     (if \<not> gameOver s then s\<lparr>stepRequested := True\<rparr>
      else
        let s1 = (if placePipesInterval s then s\<lparr>placePipesInterval := False\<rparr> else s);
            s2 = s1\<lparr>showMenu := True\<rparr>
        in setRunning False s2)"

text \<open>
  \<open>step\<close> is defined inside the effect that runs when \<open>running\<close> has become true, so the
  \<open>running\<close> that it tests is the value of that render. The model reads the field of the
  state: whenever an animation frame of \<open>step\<close> is pending, both are true (\<open>game_inv\<close>).
  The last part of \<open>step\<close>, which requests the next frame or ends the game, is \<open>finish\<close>.
\<close>

definition step :: "game \<Rightarrow> game" where
  "step s =
     (if \<not> running s then s\<lparr>stepRequested := True\<rparr>
      else
        let s1 = animate FRAME_TICK_RATE s;
            s2 = physics s1;
            s3 = updatePipes s2;
            s4 = s3\<lparr>pipes := removeOffscreen (pipes s3)\<rparr>;
            s5 = groundCheck s4
        in finish s5)"

subsection \<open>Spawning and control\<close>

definition spawnPipePair :: "real \<Rightarrow> game \<Rightarrow> game" where
  "spawnPipePair r s =
     (let randomPipeY = fl (- PIPE_H / 4 - fl (r * (PIPE_H / 2)));
          openingSpace = BOARD_H / 4;
          tp = \<lparr>x = PIPE_X, y = randomPipeY, width = PIPE_W, height = PIPE_H,
                img = TopPipeImg, passed = False\<rparr>;
          bp = \<lparr>x = PIPE_X, y = fl (fl (randomPipeY + PIPE_H) + openingSpace),
                width = PIPE_W, height = PIPE_H,
                img = BottomPipeImg, passed = False\<rparr>
      in s\<lparr>pipes := (pipes s @ [tp]) @ [bp]\<rparr>)"

definition startGame :: "real \<Rightarrow> game \<Rightarrow> game" where
  "startGame r s =
     (let s1 = s\<lparr>bird := \<lparr>x = BIRD_X, y = BIRD_Y, width = BIRD_W, height = BIRD_H\<rparr>,
                  velocityY := 0, pipes := [], score := 0, gameOver := False\<rparr>;
          s2 = spawnPipePair r s1;
          s3 = s2\<lparr>placePipesInterval := True\<rparr>;
          s4 = setRunning True s3
      in s4\<lparr>showMenu := False\<rparr>)"

definition flap :: "real \<Rightarrow> game \<Rightarrow> game" where
  "flap r s =
     (if \<not> running s then (if showMenu s \<and> loaded s then startGame r s else s)
      else if gameOver s then startGame r s
      else s\<lparr>velocityY := - 6\<rparr>)"

definition checkLoaded :: "game \<Rightarrow> game" where
  "checkLoaded s =
     (let s1 = s\<lparr>checks := checks s + 1\<rparr>
      in if \<not> loaded s1 \<and> checks s1 > 3 then s1\<lparr>loaded := True\<rparr> else s1)"

definition idleLoop :: "game \<Rightarrow> game" where
  "idleLoop s = animate (FRAME_TICK_RATE * 2) s"

subsection \<open>Events\<close>

text \<open>
  What the browser can deliver to the component: an animation frame for \<open>step\<close> (only when
  one was requested), an animation frame for \<open>idleLoop\<close>, the spawn interval (only while its
  handle is set), a key, click or touch (all of them call \<open>flap\<close>), the Start button (shown
  with the menu), and a load or error callback of an image. The real number of an event is
  the draw of \<open>Math.random()\<close> that the handler makes if it spawns a pair.
\<close>

datatype event = Tick | IdleFrame | SpawnTimer real | Flap real | StartButton real | AssetCallback

fun exec :: "event \<Rightarrow> game \<Rightarrow> game" where
  "exec Tick s = (if stepRequested s then step (s\<lparr>stepRequested := False\<rparr>) else s)"
| "exec IdleFrame s = idleLoop s"
| "exec (SpawnTimer r) s =
     (if placePipesInterval s then (if \<not> gameOver s then spawnPipePair r s else s) else s)"
| "exec (Flap r) s = flap r s"
| "exec (StartButton r) s =
     (if showMenu s then (if \<not> loaded s then s else startGame r s) else s)"
| "exec AssetCallback s = checkLoaded s"

fun draw_ok :: "event \<Rightarrow> bool" where
  "draw_ok (SpawnTimer r) \<longleftrightarrow> 0 \<le> r \<and> r < 1"
| "draw_ok (Flap r) \<longleftrightarrow> 0 \<le> r \<and> r < 1"
| "draw_ok (StartButton r) \<longleftrightarrow> 0 \<le> r \<and> r < 1"
| "draw_ok _ \<longleftrightarrow> True"

fun restarts :: "event \<Rightarrow> bool" where
  "restarts (Flap r) \<longleftrightarrow> True"
| "restarts (StartButton r) \<longleftrightarrow> True"
| "restarts _ \<longleftrightarrow> False"

fun run :: "event list \<Rightarrow> game \<Rightarrow> game" where
  "run [] s = s"
| "run (e # es) s = run es (exec e s)"

inductive reachable :: "game \<Rightarrow> bool" where
  reach_initial: "reachable initial"
| reach_exec: "reachable s \<Longrightarrow> draw_ok e \<Longrightarrow> reachable (exec e s)"

section \<open>Auxiliary definitions\<close>

text \<open>
  \<open>passPipe b p\<close> is the pipe \<open>p\<close> as one iteration of the loop of \<open>step\<close> leaves it
  (moved, and flagged if the bird \<open>b\<close> has just crossed it), and \<open>settle\<close> is the part of
  \<open>step\<close> that follows the physics. The predicates \<open>pipe_ok\<close>,
  \<open>pairs_ok\<close> and \<open>game_inv\<close> describe the states that the component can be in; that every
  reachable state satisfies them is proved below.
\<close>

definition passPipe :: "rect \<Rightarrow> pipe \<Rightarrow> pipe" where
  "passPipe b p0 = fst (pipeBody b p0 (0, False))"

definition settle :: "game \<Rightarrow> game" where
  "settle s =
     (let s3 = updatePipes s;
          s4 = s3\<lparr>pipes := removeOffscreen (pipes s3)\<rparr>;
          s5 = groundCheck s4
      in finish s5)"

definition pipe_ok :: "pipe \<Rightarrow> bool" where
  "pipe_ok p \<longleftrightarrow>
     width p = PIPE_W \<and> height p = PIPE_H \<and> x p \<le> PIPE_X \<and>
     (passed p \<longleftrightarrow> BIRD_X > x p + width p)"

fun pairs_ok :: "pipe list \<Rightarrow> bool" where
  "pairs_ok [] \<longleftrightarrow> True"
| "pairs_ok [p] \<longleftrightarrow> False"
| "pairs_ok (t # b # ps) \<longleftrightarrow>
     x t = x b \<and> y b = fl (fl (y t + height t) + BOARD_H / 4) \<and>
     - PIPE_H / 4 - PIPE_H / 2 \<le> y t \<and> y t \<le> - PIPE_H / 4 \<and>
     img t = TopPipeImg \<and> img b = BottomPipeImg \<and> pairs_ok ps"

definition game_inv :: "game \<Rightarrow> bool" where
  "game_inv s \<longleftrightarrow>
     x (bird s) = BIRD_X \<and> width (bird s) = BIRD_W \<and> height (bird s) = BIRD_H \<and>
     list_all pipe_ok (pipes s) \<and> pairs_ok (pipes s) \<and> sorted (map x (pipes s)) \<and>
     showMenu s = (\<not> running s) \<and> stepRequested s = running s \<and>
     (running s \<longrightarrow> loaded s \<and> \<not> gameOver s) \<and>
     (gameOver s \<longrightarrow> loaded s) \<and>
     (placePipesInterval s \<longrightarrow> running s)"

subsection \<open>Some plays\<close>

text \<open>
  Concrete event sequences, used to exhibit states that the component really reaches:
  the images load (\<open>menu\<close>) and the Start button is pressed with draw \<open>1/2\<close> (\<open>started\<close>);
  two ticks pass (\<open>warming\<close>); the bird
  falls untouched, up to the tick before it reaches the ground (\<open>falling\<close>) and into
  the ground (\<open>crashed\<close>); the bird is kept level by a flap every 29
  ticks while a second pair is spawned (\<open>cruising\<close>), up to the tick before it crosses
  the first pair (\<open>approaching\<close>), after the crossing (\<open>beyond\<close>), up to the tick before the
  first pair leaves the board (\<open>leaving\<close>) and, with no more flaps, up to the tick before
  it hits the lower pipe of the second pair (\<open>diving\<close>); the bird flaps on every tick
  and climbs above every pipe (\<open>soaring\<close>). \<open>draw002\<close> is the draw 0.002 of \<open>Math.random()\<close>,
  that is, the double nearest to 2/1000.
\<close>

definition loading :: "event list" where
  "loading = [AssetCallback, AssetCallback, AssetCallback, AssetCallback]"

definition menu :: game where
  "menu = run loading initial"

definition started :: game where
  "started = run (loading @ [StartButton (1 / 2)]) initial"

definition warming :: game where
  "warming = run [Tick, Tick] started"

definition draw002 :: real where
  "draw002 = fl (2 / 1000)"

definition ticks10 :: "event list" where
  "ticks10 = [Tick, Tick, Tick, Tick, Tick, Tick, Tick, Tick, Tick, Tick]"

definition falling :: game where
  "falling = run (ticks10 @ ticks10 @ ticks10 @ [Tick, Tick, Tick, Tick, Tick, Tick, Tick]) started"

definition crashed :: game where
  "crashed = exec Tick falling"

definition period :: "event list" where
  "period = Flap 0 # ticks10 @ ticks10 @ [Tick, Tick, Tick, Tick, Tick, Tick, Tick, Tick, Tick]"

definition cruising :: game where
  "cruising = run (period @ period @ period @ [SpawnTimer (1 / 2)] @ period @ period @ period) started"

definition approaching :: game where
  "approaching = run (Flap 0 # ticks10 @ [Tick, Tick, Tick, Tick, Tick]) cruising"

definition beyond :: game where
  "beyond = run (ticks10 @ [Tick, Tick, Tick, Tick]) approaching"

definition leaving :: game where
  "leaving = run (Flap 0 # [Tick, Tick, Tick, Tick, Tick, Tick, Tick, Tick, Tick]) beyond"





section \<open>Basic facts\<close>

subsection \<open>Rounding\<close>

lemma pow2_pos [simp]: "0 < pow2 e"
  by (simp add: pow2_def)

lemma pow2_Suc: "pow2 (e + 1) = 2 * pow2 e"
proof (cases "0 \<le> e")
  case True
  then show ?thesis by (simp add: pow2_def nat_add_distrib)
next
  case False
  then have "nat (- e) = Suc (nat (- (e + 1)))" by simp
  then show ?thesis using False by (simp add: pow2_def)
qed

lemma pow2_pred: "pow2 (e - 1) = pow2 e / 2"
  using pow2_Suc [of "e - 1"] by simp

lemma pow2_add: "pow2 (d + int k) = pow2 d * 2 ^ k"
proof (induction k)
  case 0
  show ?case by simp
next
  case (Suc k)
  have "d + int (Suc k) = (d + int k) + 1" by simp
  then have "pow2 (d + int (Suc k)) = 2 * pow2 (d + int k)"
    by (simp only: pow2_Suc)
  then show ?case using Suc by simp
qed

lemma pow2_mono: "d \<le> e \<Longrightarrow> pow2 d \<le> pow2 e"
proof -
  assume "d \<le> e"
  then obtain k where "e = d + int k" by (metis nat_int zle_iff_zadd)
  then show ?thesis by (simp add: pow2_add)
qed

lemma expo_hi_bounds: "1 \<le> a \<Longrightarrow> pow2 (expo_hi a) \<le> a \<and> a < pow2 (expo_hi a + 1)"
proof (induction a rule: expo_hi.induct)
  case (1 a)
  show ?case
  proof (cases "2 \<le> a")
    case True
    then have ih: "pow2 (expo_hi (a / 2)) \<le> a / 2 \<and> a / 2 < pow2 (expo_hi (a / 2) + 1)"
      using "1.IH" by simp
    have eq: "expo_hi a = expo_hi (a / 2) + 1"
      using True by (subst expo_hi.simps) simp
    have "pow2 (expo_hi a) = 2 * pow2 (expo_hi (a / 2))"
      unfolding eq by (rule pow2_Suc)
    moreover have "pow2 (expo_hi a + 1) = 2 * pow2 (expo_hi (a / 2) + 1)"
      unfolding eq by (rule pow2_Suc)
    ultimately show ?thesis
      using ih by simp
  next
    case False
    then have "expo_hi a = 0"
      by (subst expo_hi.simps) simp
    then show ?thesis
      using "1.prems" False by (simp add: pow2_def)
  qed
qed

lemma expo_lo_bounds:
  "0 < a \<Longrightarrow> a < 1 \<Longrightarrow> pow2 (expo_lo a) \<le> a \<and> a < pow2 (expo_lo a + 1)"
proof (induction a rule: expo_lo.induct)
  case (1 a)
  have eq: "expo_lo a = expo_lo (a * 2) - 1"
    using "1.prems" by (subst expo_lo.simps) simp
  have p: "pow2 (expo_lo a) = pow2 (expo_lo (a * 2)) / 2"
    unfolding eq by (rule pow2_pred)
  have q: "pow2 (expo_lo a + 1) = pow2 (expo_lo (a * 2))"
    unfolding eq by simp
  show ?case
  proof (cases "a * 2 < 1")
    case True
    then have "pow2 (expo_lo (a * 2)) \<le> a * 2 \<and> a * 2 < pow2 (expo_lo (a * 2) + 1)"
      using "1.IH" "1.prems" by simp
    then show ?thesis
      unfolding p q by (simp add: pow2_Suc)
  next
    case False
    then have "expo_lo (a * 2) = 0"
      by (subst expo_lo.simps) simp
    then show ?thesis
      unfolding p q using "1.prems" False by (simp add: pow2_def)
  qed
qed

lemma expo_bounds: "0 < a \<Longrightarrow> pow2 (expo a) \<le> a \<and> a < pow2 (expo a + 1)"
  using expo_hi_bounds [of a] expo_lo_bounds [of a] by (simp add: expo_def)

lemma round_even_bounds: "\<lfloor>z\<rfloor> \<le> round_even z \<and> round_even z \<le> \<lceil>z\<rceil>"
proof -
  have "\<lfloor>z\<rfloor> + 1 \<le> \<lceil>z\<rceil>" if "z \<noteq> of_int \<lfloor>z\<rfloor>"
    using that by (metis ceiling_altdef eq_iff)
  then show ?thesis
    by (auto simp add: round_even_def Let_def)
qed

lemma round_even_error: "\<bar>of_int (round_even z) - z\<bar> \<le> 1 / 2"
proof -
  have "of_int \<lfloor>z\<rfloor> \<le> z" "z < of_int \<lfloor>z\<rfloor> + 1" by linarith+
  then show ?thesis
    by (auto simp add: round_even_def Let_def abs_le_iff)
qed

lemma fl_error: "\<bar>fl a - a\<bar> \<le> \<bar>a\<bar> / 2 ^ 53"
proof (cases "a = 0")
  case True
  then show ?thesis by (simp add: fl_def)
next
  case False
  define u where "u = pow2 (expo \<bar>a\<bar> - 52)"
  have u: "0 < u" by (simp add: u_def)
  have "pow2 (expo \<bar>a\<bar>) \<le> \<bar>a\<bar>"
    using expo_bounds [of "\<bar>a\<bar>"] False by simp
  moreover have "pow2 (expo \<bar>a\<bar>) = u * 2 ^ 52"
    using pow2_add [of "expo \<bar>a\<bar> - 52" 52] by (simp add: u_def)
  ultimately have ua: "u * 2 ^ 52 \<le> \<bar>a\<bar>" by simp
  have "fl a - a = (of_int (round_even (a / u)) - a / u) * u"
    using False u by (simp add: fl_def u_def [symmetric] Let_def algebra_simps)
  then have "\<bar>fl a - a\<bar> = \<bar>of_int (round_even (a / u)) - a / u\<bar> * u"
    using u by (simp add: abs_mult)
  also have "\<dots> \<le> (1 / 2) * u"
    using round_even_error [of "a / u"] u by (intro mult_right_mono) simp_all
  also have "\<dots> \<le> \<bar>a\<bar> / 2 ^ 53"
    using ua by simp
  finally show ?thesis .
qed

lemma ulp_int:
  assumes "a \<noteq> 0" and "\<bar>a\<bar> < 2 ^ 53"
  shows "\<exists>k. pow2 (expo \<bar>a\<bar> - 52) = 1 / 2 ^ k"
proof -
  have "pow2 (expo \<bar>a\<bar>) < pow2 53"
    using expo_bounds [of "\<bar>a\<bar>"] assms by (simp add: pow2_def)
  then have "expo \<bar>a\<bar> < 53"
    using pow2_mono [of 53 "expo \<bar>a\<bar>"] by (cases "expo \<bar>a\<bar> < 53") simp_all
  then have "pow2 (expo \<bar>a\<bar> - 52) = 1 / 2 ^ nat (52 - expo \<bar>a\<bar>)"
    by (cases "expo \<bar>a\<bar> = 52") (simp_all add: pow2_def)
  then show ?thesis by blast
qed

lemma fl_ge_int:
  assumes "of_int n \<le> a" and "\<bar>a\<bar> < 2 ^ 53"
  shows "of_int n \<le> fl a"
proof (cases "a = 0")
  case True
  then show ?thesis using assms by (simp add: fl_def)
next
  case False
  from ulp_int [OF False assms(2)] obtain k where u: "pow2 (expo \<bar>a\<bar> - 52) = 1 / 2 ^ k"
    by blast
  have "of_int (n * 2 ^ k) \<le> a * 2 ^ k"
    using assms(1) by simp
  then have "n * 2 ^ k \<le> \<lfloor>a * 2 ^ k\<rfloor>"
    by (simp add: le_floor_iff)
  then have "n * 2 ^ k \<le> round_even (a * 2 ^ k)"
    using round_even_bounds [of "a * 2 ^ k"] by linarith
  then have "(of_int (n * 2 ^ k) :: real) \<le> of_int (round_even (a * 2 ^ k))"
    by (simp only: of_int_le_iff)
  then have "of_int n * 2 ^ k \<le> (of_int (round_even (a * 2 ^ k)) :: real)"
    by simp
  then have "of_int n \<le> (of_int (round_even (a * 2 ^ k)) :: real) / 2 ^ k"
    by (simp add: pos_le_divide_eq)
  moreover have "fl a = of_int (round_even (a * 2 ^ k)) / 2 ^ k"
    using False by (simp add: fl_def u Let_def)
  ultimately show ?thesis by simp
qed

lemma fl_le_int:
  assumes "a \<le> of_int n" and "\<bar>a\<bar> < 2 ^ 53"
  shows "fl a \<le> of_int n"
proof (cases "a = 0")
  case True
  then show ?thesis using assms by (simp add: fl_def)
next
  case False
  from ulp_int [OF False assms(2)] obtain k where u: "pow2 (expo \<bar>a\<bar> - 52) = 1 / 2 ^ k"
    by blast
  have "a * 2 ^ k \<le> of_int (n * 2 ^ k)"
    using assms(1) by simp
  then have "\<lceil>a * 2 ^ k\<rceil> \<le> n * 2 ^ k"
    by (simp add: ceiling_le_iff)
  then have "round_even (a * 2 ^ k) \<le> n * 2 ^ k"
    using round_even_bounds [of "a * 2 ^ k"] by linarith
  then have "(of_int (round_even (a * 2 ^ k)) :: real) \<le> of_int (n * 2 ^ k)"
    by (simp only: of_int_le_iff)
  then have "(of_int (round_even (a * 2 ^ k)) :: real) \<le> of_int n * 2 ^ k"
    by simp
  then have "(of_int (round_even (a * 2 ^ k)) :: real) / 2 ^ k \<le> of_int n"
    by (simp add: pos_divide_le_eq)
  moreover have "fl a = of_int (round_even (a * 2 ^ k)) / 2 ^ k"
    using False by (simp add: fl_def u Let_def)
  ultimately show ?thesis by simp
qed

lemmas fl_eval = fl_def expo_def expo_hi.simps expo_lo.simps pow2_def round_even_def Let_def

lemma gravity_eq: "gravity = 3602879701896397 / 9007199254740992"
  by (simp add: gravity_def fl_eval)

lemmas game_consts =
  BOARD_W_def BOARD_H_def BIRD_W_def BIRD_H_def BIRD_X_def BIRD_Y_def
  PIPE_W_def PIPE_H_def PIPE_X_def gravity_eq FRAME_TICK_RATE_def EXPECTED_FRAMES_def

subsection \<open>The loop over the pipes\<close>

lemma passPipe_eq:
  "passPipe b p0 = (if crossed b (movePipe p0) then (movePipe p0)\<lparr>passed := True\<rparr> else movePipe p0)"
  by (simp add: passPipe_def pipeBody_def Let_def)

lemma collision_passPipe [simp]: "detectCollision b (passPipe b p) = detectCollision b (movePipe p)"
  by (simp add: passPipe_eq detectCollision_def)

lemma pipeBody_eq:
  "pipeBody b p0 acc =
     (passPipe b p0,
      fst acc + (if crossed b (movePipe p0) then 1 / 2 else 0),
      snd acc \<or> detectCollision b (movePipe p0))"
  by (auto simp add: pipeBody_def passPipe_eq Let_def detectCollision_def)

lemma pipeLoop_eq:
  "pipeLoop b ps acc =
     (map (passPipe b) ps,
      fst acc + (1 / 2) * real (length (filter (\<lambda>p. crossed b (movePipe p)) ps)),
      snd acc \<or> (\<exists>p\<in>set ps. detectCollision b (movePipe p)))"
proof (induction ps arbitrary: acc)
  case Nil
  show ?case by simp
next
  case (Cons p ps)
  show ?case
    by (simp add: pipeBody_eq Cons.IH algebra_simps)
qed

lemma removeOffscreen_dropWhile: "removeOffscreen ps = dropWhile (\<lambda>p. x p < - PIPE_W) ps"
  by (induction ps) simp_all

lemma bird_physics [simp]:
  "bird (physics s) = (bird s)\<lparr>y := fl (y (bird s) + fl (velocityY s + gravity))\<rparr>"
  by (simp add: physics_def Let_def)

lemma animate_sel [simp]:
  "bird (animate n s) = bird s" "velocityY (animate n s) = velocityY s"
  "pipes (animate n s) = pipes s" "score (animate n s) = score s"
  "gameOver (animate n s) = gameOver s" "placePipesInterval (animate n s) = placePipesInterval s"
  "loaded (animate n s) = loaded s" "running (animate n s) = running s"
  "showMenu (animate n s) = showMenu s" "checks (animate n s) = checks s"
  "stepRequested (animate n s) = stepRequested s"
  by (simp_all add: animate_def Let_def)

lemma physics_sel [simp]:
  "velocityY (physics s) = fl (velocityY s + gravity)"
  "pipes (physics s) = pipes s" "score (physics s) = score s"
  "gameOver (physics s) = gameOver s" "placePipesInterval (physics s) = placePipesInterval s"
  "loaded (physics s) = loaded s" "running (physics s) = running s"
  "showMenu (physics s) = showMenu s" "checks (physics s) = checks s"
  "stepRequested (physics s) = stepRequested s"
  by (simp_all add: physics_def Let_def)

lemma updatePipes_sel [simp]:
  "bird (updatePipes s) = bird s" "velocityY (updatePipes s) = velocityY s"
  "pipes (updatePipes s) = map (passPipe (bird s)) (pipes s)"
  "score (updatePipes s) =
     score s + (1 / 2) * real (length (filter (\<lambda>p. crossed (bird s) (movePipe p)) (pipes s)))"
  "gameOver (updatePipes s) \<longleftrightarrow>
     gameOver s \<or> (\<exists>p\<in>set (pipes s). detectCollision (bird s) (movePipe p))"
  "placePipesInterval (updatePipes s) = placePipesInterval s"
  "loaded (updatePipes s) = loaded s" "running (updatePipes s) = running s"
  "showMenu (updatePipes s) = showMenu s" "checks (updatePipes s) = checks s"
  "stepRequested (updatePipes s) = stepRequested s"
  by (simp_all add: updatePipes_def pipeLoop_eq)

lemma groundCheck_sel [simp]:
  "bird (groundCheck s) = bird s" "velocityY (groundCheck s) = velocityY s"
  "pipes (groundCheck s) = pipes s" "score (groundCheck s) = score s"
  "gameOver (groundCheck s) \<longleftrightarrow> gameOver s \<or> y (bird s) > BOARD_H - BIRD_H"
  "placePipesInterval (groundCheck s) = placePipesInterval s"
  "loaded (groundCheck s) = loaded s" "running (groundCheck s) = running s"
  "showMenu (groundCheck s) = showMenu s" "checks (groundCheck s) = checks s"
  "stepRequested (groundCheck s) = stepRequested s"
  by (simp_all add: groundCheck_def)

lemma finish_sel [simp]:
  "bird (finish s) = bird s" "velocityY (finish s) = velocityY s"
  "pipes (finish s) = pipes s" "score (finish s) = score s"
  "gameOver (finish s) = gameOver s"
  "placePipesInterval (finish s) = (placePipesInterval s \<and> \<not> gameOver s)"
  "loaded (finish s) = loaded s" "running (finish s) = (running s \<and> \<not> gameOver s)"
  "showMenu (finish s) = (showMenu s \<or> gameOver s)" "checks (finish s) = checks s"
  "stepRequested (finish s) = (stepRequested s \<or> \<not> gameOver s)"
  by (simp_all add: finish_def setRunning_def Let_def)

lemma step_running:
  assumes "running s"
  shows "velocityY (step s) = fl (velocityY s + gravity)"
    and "bird (step s) = (bird s)\<lparr>y := fl (y (bird s) + fl (velocityY s + gravity))\<rparr>"
    and "pipes (step s) = removeOffscreen (map (passPipe (bird (step s))) (pipes s))"
    and "score (step s) =
          score s + (1 / 2) * real (length (filter (\<lambda>p. crossed (bird (step s)) (movePipe p)) (pipes s)))"
    and "gameOver (step s) \<longleftrightarrow>
          gameOver s \<or> (\<exists>p\<in>set (pipes s). detectCollision (bird (step s)) (movePipe p)) \<or>
          y (bird (step s)) > BOARD_H - BIRD_H"
    and "running (step s) = (\<not> gameOver (step s))"
    and "placePipesInterval (step s) = (placePipesInterval s \<and> \<not> gameOver (step s))"
    and "showMenu (step s) = (showMenu s \<or> gameOver (step s))"
    and "stepRequested (step s) = (stepRequested s \<or> \<not> gameOver (step s))"
    and "loaded (step s) = loaded s"
    and "checks (step s) = checks s"
  using assms by (simp_all add: step_def Let_def)

lemma x_passPipe [simp]: "x (passPipe b p) = x p - 2"
  and y_passPipe [simp]: "y (passPipe b p) = y p"
  and width_passPipe [simp]: "width (passPipe b p) = width p"
  and height_passPipe [simp]: "height (passPipe b p) = height p"
  and img_passPipe [simp]: "img (passPipe b p) = img p"
  and passed_passPipe: "passed (passPipe b p) \<longleftrightarrow> passed p \<or> x b > x p - 2 + width p"
  by (auto simp add: passPipe_eq movePipe_def crossed_def)

lemma pipe_ok_passPipe:
  assumes "pipe_ok p" and "x b = BIRD_X"
  shows "pipe_ok (passPipe b p)"
  using assms by (auto simp add: pipe_ok_def passed_passPipe)

lemma pairs_ok_map_passPipe: "pairs_ok ps \<Longrightarrow> pairs_ok (map (passPipe b) ps)"
  by (induction ps rule: pairs_ok.induct) simp_all

lemma sorted_map_passPipe:
  "sorted (map x ps) \<Longrightarrow> sorted (map x (map (passPipe b) ps))"
  by (induction ps) auto

lemma pairs_ok_removeOffscreen: "pairs_ok ps \<Longrightarrow> pairs_ok (removeOffscreen ps)"
  by (induction ps rule: pairs_ok.induct) simp_all

lemma list_all_removeOffscreen: "list_all P ps \<Longrightarrow> list_all P (removeOffscreen ps)"
  by (induction ps) simp_all

lemma sorted_removeOffscreen: "sorted (map x ps) \<Longrightarrow> sorted (map x (removeOffscreen ps))"
  by (induction ps) auto

lemma pairs_ok_append: "pairs_ok ps \<Longrightarrow> pairs_ok qs \<Longrightarrow> pairs_ok (ps @ qs)"
  by (induction ps rule: pairs_ok.induct) simp_all

lemma pairs_ok_even: "pairs_ok ps \<Longrightarrow> even (length ps)"
  by (induction ps rule: pairs_ok.induct) simp_all

lemma inv_initial: "game_inv initial"
  by (simp add: game_inv_def initial_def)

lemma gapY_bounds:
  assumes "0 \<le> r" and "r < 1"
  shows "- 384 \<le> fl (- 128 - fl (r * 256)) \<and> fl (- 128 - fl (r * 256)) \<le> - 128"
proof -
  have m: "\<bar>r * 256\<bar> < 2 ^ 53"
    using assms by simp
  have lo: "0 \<le> fl (r * 256)"
    using fl_ge_int [of 0 "r * 256"] assms(1) m by simp
  have hi: "fl (r * 256) \<le> 256"
    using fl_le_int [of "r * 256" 256] assms(2) m by simp
  have m2: "\<bar>- 128 - fl (r * 256)\<bar> < 2 ^ 53"
    using lo hi by simp
  show ?thesis
    using fl_ge_int [of "- 384" "- 128 - fl (r * 256)"]
      fl_le_int [of "- 128 - fl (r * 256)" "- 128"] lo hi m2
    by simp
qed


lemma inv_spawnPipePair:
  assumes "game_inv s" and "0 \<le> r" and "r < 1"
  shows "game_inv (spawnPipePair r s)"
proof -
  let ?g = "fl (- PIPE_H / 4 - fl (r * (PIPE_H / 2)))"
  let ?t = "\<lparr>x = PIPE_X, y = ?g, width = PIPE_W, height = PIPE_H,
             img = TopPipeImg, passed = False\<rparr>"
  let ?b = "\<lparr>x = PIPE_X, y = fl (fl (?g + PIPE_H) + BOARD_H / 4),
             width = PIPE_W, height = PIPE_H, img = BottomPipeImg, passed = False\<rparr>"
  have eq: "spawnPipePair r s = s\<lparr>pipes := pipes s @ [?t, ?b]\<rparr>"
    by (simp add: spawnPipePair_def Let_def)
  have new_ok: "pipe_ok ?t" "pipe_ok ?b"
    by (simp_all add: pipe_ok_def BOARD_W_def BIRD_X_def PIPE_W_def PIPE_X_def)
  have new_pair: "pairs_ok [?t, ?b]"
    using gapY_bounds [OF assms(2,3)] by (simp add: PIPE_H_def)
  have le: "\<forall>p\<in>set (pipes s). x p \<le> PIPE_X"
    using assms(1) by (simp add: game_inv_def list_all_iff pipe_ok_def)
  have srt: "sorted (map x (pipes s @ [?t, ?b]))"
    using assms(1) le by (simp add: game_inv_def sorted_append)
  show ?thesis
    using assms(1) new_ok srt pairs_ok_append [OF _ new_pair, of "pipes s"]
    by (simp add: eq game_inv_def)
qed

lemma inv_startGame:
  assumes "game_inv s" and "loaded s" and "0 \<le> r" and "r < 1"
  shows "game_inv (startGame r s)"
proof -
  let ?s1 = "s\<lparr>bird := \<lparr>x = BIRD_X, y = BIRD_Y, width = BIRD_W, height = BIRD_H\<rparr>,
               velocityY := 0, pipes := [], score := 0, gameOver := False\<rparr>"
  have "game_inv (?s1\<lparr>running := False, stepRequested := False, showMenu := True,
          placePipesInterval := False\<rparr>)"
    using assms(1,2) by (simp add: game_inv_def)
  from inv_spawnPipePair [OF this assms(3,4)]
  show ?thesis
    using assms(1,2)
    by (auto simp add: startGame_def setRunning_def Let_def game_inv_def spawnPipePair_def)
qed

lemma inv_step:
  assumes "game_inv s" and "running s"
  shows "game_inv (step (s\<lparr>stepRequested := False\<rparr>))"
proof -
  let ?s = "s\<lparr>stepRequested := False\<rparr>"
  have r: "running ?s" using assms(2) by simp
  note f = step_running [OF r]
  have bx: "x (bird (step ?s)) = BIRD_X"
    using assms(1) by (simp add: f(2) game_inv_def)
  have ok: "list_all pipe_ok (map (passPipe (bird (step ?s))) (pipes s))"
    using assms(1) bx by (simp add: game_inv_def list_all_iff pipe_ok_passPipe)
  have ok': "list_all pipe_ok (pipes (step ?s))"
    using ok by (simp add: f(3) list_all_removeOffscreen)
  have pr: "pairs_ok (pipes (step ?s))"
    using assms(1) unfolding f(3)
    by (intro pairs_ok_removeOffscreen pairs_ok_map_passPipe) (simp add: game_inv_def)
  have srt: "sorted (map x (pipes (step ?s)))"
    using assms(1) unfolding f(3)
    by (intro sorted_removeOffscreen sorted_map_passPipe) (simp add: game_inv_def)
  have b: "width (bird (step ?s)) = BIRD_W" "height (bird (step ?s)) = BIRD_H"
    using assms(1) by (simp_all add: f(2) game_inv_def)
  show ?thesis
    unfolding game_inv_def
    using assms bx b ok' pr srt
    by (simp add: f(6-10) game_inv_def)
qed

lemma inv_animate: "game_inv (animate n s) = game_inv s"
  by (simp add: animate_def game_inv_def Let_def)

lemma inv_checkLoaded: "game_inv s \<Longrightarrow> game_inv (checkLoaded s)"
  by (simp add: checkLoaded_def game_inv_def Let_def)

lemma inv_exec:
  assumes "game_inv s" and "draw_ok e"
  shows "game_inv (exec e s)"
proof (cases e)
  case Tick
  show ?thesis
  proof (cases "stepRequested s")
    case True
    then have "running s" using assms(1) by (simp add: game_inv_def)
    from inv_step [OF assms(1) this] show ?thesis using Tick True by simp
  next
    case False
    then show ?thesis using Tick assms(1) by simp
  qed
next
  case IdleFrame
  then show ?thesis using assms(1) by (simp add: idleLoop_def inv_animate)
next
  case (SpawnTimer r)
  then show ?thesis using assms by (simp add: inv_spawnPipePair)
next
  case (Flap r)
  have dr: "0 \<le> r" "r < 1" using Flap assms(2) by simp_all
  have "flap r s = startGame r s \<and> loaded s \<or> flap r s = s \<or>
        flap r s = s\<lparr>velocityY := - 6\<rparr>"
    using assms(1)
    by (cases "running s"; cases "loaded s"; cases "gameOver s"; simp add: flap_def game_inv_def)
  then consider (start) "flap r s = startGame r s" "loaded s"
    | (none) "flap r s = s"
    | (impulse) "flap r s = s\<lparr>velocityY := - 6\<rparr>"
    by blast
  then have "game_inv (flap r s)"
  proof cases
    case start
    then show ?thesis using inv_startGame [OF assms(1) start(2) dr] by simp
  next
    case none
    then show ?thesis using assms(1) by simp
  next
    case impulse
    then show ?thesis using assms(1) by (simp add: game_inv_def)
  qed
  then show ?thesis using Flap by simp
next
  case (StartButton r)
  then show ?thesis using assms by (simp add: inv_startGame)
next
  case AssetCallback
  then show ?thesis using assms(1) by (simp add: inv_checkLoaded)
qed

lemma reachable_inv: "reachable s \<Longrightarrow> game_inv s"
  by (induction rule: reachable.induct) (simp_all add: inv_initial inv_exec)

lemma reachable_run: "reachable s \<Longrightarrow> list_all draw_ok es \<Longrightarrow> reachable (run es s)"
  by (induction es arbitrary: s) (simp_all add: reach_exec)

subsection \<open>Evaluating a tick on an explicit state\<close>

lemma run_append: "run (es @ fs) s = run fs (run es s)"
  by (induction es arbitrary: s) simp_all

text \<open>The reachable states are the states that a run of events from the initial state ends in.\<close>

lemma reachable_iff_run:
  "reachable s \<longleftrightarrow> (\<exists>es. list_all draw_ok es \<and> s = run es initial)"
proof
  assume "reachable s"
  then show "\<exists>es. list_all draw_ok es \<and> s = run es initial"
  proof (induction rule: reachable.induct)
    case reach_initial
    have "list_all draw_ok [] \<and> initial = run [] initial" by simp
    then show ?case by blast
  next
    case (reach_exec s e)
    then obtain es where es: "list_all draw_ok es" "s = run es initial" by blast
    then have "list_all draw_ok (es @ [e]) \<and> exec e s = run (es @ [e]) initial"
      using reach_exec.hyps(2) by (simp add: run_append)
    then show ?case by blast
  qed
next
  assume "\<exists>es. list_all draw_ok es \<and> s = run es initial"
  then show "reachable s"
    using reachable_run [OF reach_initial] by blast
qed

lemma passPipe_literal:
  "passPipe b \<lparr>x = px, y = py, width = pw, height = ph, img = i, passed = pd\<rparr> =
     \<lparr>x = px - 2, y = py, width = pw, height = ph, img = i,
      passed = (pd \<or> x b > px - 2 + pw)\<rparr>"
  by (simp add: passPipe_eq movePipe_def crossed_def)

lemma crossed_literal:
  "crossed b (movePipe \<lparr>x = px, y = py, width = pw, height = ph, img = i, passed = pd\<rparr>) \<longleftrightarrow>
     \<not> pd \<and> x b > px - 2 + pw"
  by (simp add: movePipe_def crossed_def)

lemma collision_literal:
  "detectCollision b (movePipe \<lparr>x = px, y = py, width = pw, height = ph, img = i, passed = pd\<rparr>) \<longleftrightarrow>
     x b < px - 2 + pw \<and> x b + width b > px - 2 \<and> y b < py + ph \<and> y b + height b > py"
  by (simp add: movePipe_def detectCollision_def)

lemma animate_literal: 
  "frameTick (animate n s) = (if n \<le> Suc (frameTick s) then 0 else Suc (frameTick s))"
  "frameIndex (animate n s) = (if n \<le> Suc (frameTick s) then Suc (frameIndex s) mod 4 else frameIndex s)"
  by (simp_all add: animate_def Let_def EXPECTED_FRAMES_def)

lemma frame_sel [simp]:
  "frameTick (physics s) = frameTick s" "frameIndex (physics s) = frameIndex s"
  "frameTick (updatePipes s) = frameTick s" "frameIndex (updatePipes s) = frameIndex s"
  "frameTick (groundCheck s) = frameTick s" "frameIndex (groundCheck s) = frameIndex s"
  "frameTick (finish s) = frameTick s" "frameIndex (finish s) = frameIndex s"
  by (simp_all add: physics_def updatePipes_def groundCheck_def finish_def setRunning_def
      Let_def split_beta)

lemma step_settle: "running s \<Longrightarrow> step s = settle (physics (animate FRAME_TICK_RATE s))"
  by (simp add: step_def settle_def Let_def)

lemma tick_literal:
  "exec Tick \<lparr>bird = \<lparr>x = bx, y = by, width = bw, height = bh\<rparr>, velocityY = v, pipes = ps,
       score = sc, gameOver = go,
       placePipesInterval = iv, frameIndex = fi, frameTick = ft, loaded = ld, running = True,
       showMenu = sm, checks = ck, stepRequested = True\<rparr> =
     settle
      \<lparr>bird = \<lparr>x = bx, y = fl (by + fl (v + gravity)), width = bw, height = bh\<rparr>,
       velocityY = fl (v + gravity), pipes = ps, score = sc, gameOver = go,
       placePipesInterval = iv,
       frameIndex = (if 6 \<le> Suc ft then Suc fi mod 4 else fi),
       frameTick = (if 6 \<le> Suc ft then 0 else Suc ft),
       loaded = ld, running = True, showMenu = sm, checks = ck, stepRequested = False\<rparr>"
  by (simp add: exec.simps(1) step_settle physics_def animate_def Let_def
      FRAME_TICK_RATE_def EXPECTED_FRAMES_def)

lemma settle_flying:
  assumes "\<not> list_ex (\<lambda>p. detectCollision \<lparr>x = bx, y = by, width = bw, height = bh\<rparr> (movePipe p)) ps"
    and "by \<le> 616"
  shows "settle \<lparr>bird = \<lparr>x = bx, y = by, width = bw, height = bh\<rparr>, velocityY = v, pipes = ps,
       score = sc, gameOver = False,
       placePipesInterval = iv, frameIndex = fi, frameTick = ft, loaded = ld, running = rn,
       showMenu = sm, checks = ck, stepRequested = sr\<rparr> =
     \<lparr>bird = \<lparr>x = bx, y = by, width = bw, height = bh\<rparr>, velocityY = v,
      pipes = removeOffscreen (map (passPipe \<lparr>x = bx, y = by, width = bw, height = bh\<rparr>) ps),
      score = sc + (1 / 2) *
        real (length (filter (\<lambda>p. crossed \<lparr>x = bx, y = by, width = bw, height = bh\<rparr> (movePipe p)) ps)),
      gameOver = False, placePipesInterval = iv, frameIndex = fi, frameTick = ft,
      loaded = ld, running = rn, showMenu = sm, checks = ck, stepRequested = True\<rparr>"
  using assms
  by (intro game.equality)
     (simp_all add: settle_def Let_def list_ex_iff BOARD_H_def BIRD_H_def)

lemma settle_over:
  assumes "list_ex (\<lambda>p. detectCollision \<lparr>x = bx, y = by, width = bw, height = bh\<rparr> (movePipe p)) ps
     \<or> by > 616"
  shows "settle \<lparr>bird = \<lparr>x = bx, y = by, width = bw, height = bh\<rparr>, velocityY = v, pipes = ps,
       score = sc, gameOver = False,
       placePipesInterval = iv, frameIndex = fi, frameTick = ft, loaded = ld, running = rn,
       showMenu = sm, checks = ck, stepRequested = sr\<rparr> =
     \<lparr>bird = \<lparr>x = bx, y = by, width = bw, height = bh\<rparr>, velocityY = v,
      pipes = removeOffscreen (map (passPipe \<lparr>x = bx, y = by, width = bw, height = bh\<rparr>) ps),
      score = sc + (1 / 2) *
        real (length (filter (\<lambda>p. crossed \<lparr>x = bx, y = by, width = bw, height = bh\<rparr> (movePipe p)) ps)),
      gameOver = True, placePipesInterval = False, frameIndex = fi, frameTick = ft,
      loaded = ld, running = False, showMenu = True, checks = ck, stepRequested = sr\<rparr>"
  using assms
  by (intro game.equality)
     (simp_all add: settle_def Let_def list_ex_iff BOARD_H_def BIRD_H_def)

lemmas eval_simps = run_append tick_literal settle_flying settle_over passPipe_literal
  crossed_literal collision_literal PIPE_W_def flap_def gravity_eq fl_eval

subsection \<open>The states of the plays\<close>

lemma started_eq:
  "started =
     \<lparr>bird = \<lparr>x = 45, y = 320, width = 34, height = 24\<rparr>, velocityY = 0,
     pipes =
     [\<lparr>x = 360, y = - 256, width = 64, height = 512, img = TopPipeImg,
     passed = False\<rparr>,
     \<lparr>x = 360, y = 416, width = 64, height = 512, img = BottomPipeImg,
     passed = False\<rparr>],
     score = 0, gameOver = False, placePipesInterval = True, frameIndex = 0,
     frameTick = 0, loaded = True, running = True, showMenu = False,
     checks = 4, stepRequested = True\<rparr>"
  by (simp add: started_def loading_def initial_def checkLoaded_def startGame_def spawnPipePair_def
      setRunning_def Let_def game_consts fl_eval)

lemma falling_eq:
  "falling =
     \<lparr>bird =
     \<lparr>x = 45, y = 5288211124951449 / 8796093022208, width = 34, height = 24\<rparr>,
     velocityY = 4165829655317711 / 281474976710656,
     pipes =
     [\<lparr>x = 286, y = - 256, width = 64, height = 512, img = TopPipeImg,
     passed = False\<rparr>,
     \<lparr>x = 286, y = 416, width = 64, height = 512, img = BottomPipeImg,
     passed = False\<rparr>],
     score = 0, gameOver = False, placePipesInterval = True, frameIndex = 2,
     frameTick = 1, loaded = True, running = True, showMenu = False,
     checks = 4, stepRequested = True\<rparr>"
  unfolding falling_def ticks10_def started_eq
  by (simp add: eval_simps spawnPipePair_def BOARD_W_def BOARD_H_def PIPE_H_def PIPE_X_def
      del: exec.simps(1))

lemma crashed_eq:
  "crashed =
     \<lparr>bird =
     \<lparr>x = 45, y = 5421911738889011 / 8796093022208, width = 34, height = 24\<rparr>,
     velocityY = 8556839292003947 / 562949953421312,
     pipes =
     [\<lparr>x = 284, y = - 256, width = 64, height = 512, img = TopPipeImg,
     passed = False\<rparr>,
     \<lparr>x = 284, y = 416, width = 64, height = 512, img = BottomPipeImg,
     passed = False\<rparr>],
     score = 0, gameOver = True, placePipesInterval = False, frameIndex = 2,
     frameTick = 2, loaded = True, running = False, showMenu = True,
     checks = 4, stepRequested = False\<rparr>"
  unfolding crashed_def falling_eq
  by (simp add: eval_simps spawnPipePair_def BOARD_W_def BOARD_H_def PIPE_H_def PIPE_X_def
      del: exec.simps(1))

lemma cruising_eq:
  "cruising =
     \<lparr>bird = \<lparr>x = 45, y = 320, width = 34, height = 24\<rparr>,
     velocityY = 6305039478318697 / 1125899906842624,
     pipes =
     [\<lparr>x = 12, y = - 256, width = 64, height = 512, img = TopPipeImg,
     passed = False\<rparr>,
     \<lparr>x = 12, y = 416, width = 64, height = 512, img = BottomPipeImg,
     passed = False\<rparr>,
     \<lparr>x = 186, y = - 256, width = 64, height = 512, img = TopPipeImg,
     passed = False\<rparr>,
     \<lparr>x = 186, y = 416, width = 64, height = 512, img = BottomPipeImg,
     passed = False\<rparr>],
     score = 0, gameOver = False, placePipesInterval = True, frameIndex = 1,
     frameTick = 0, loaded = True, running = True, showMenu = False,
     checks = 4, stepRequested = True\<rparr>"
  unfolding cruising_def period_def ticks10_def started_eq
  by (simp add: eval_simps spawnPipePair_def BOARD_W_def BOARD_H_def PIPE_H_def PIPE_X_def
      del: exec.simps(1))

lemma approaching_eq:
  "approaching =
     \<lparr>bird = \<lparr>x = 45, y = 278, width = 34, height = 24\<rparr>,
     velocityY = 7 / 9007199254740992,
     pipes =
     [\<lparr>x = - 18, y = - 256, width = 64, height = 512, img = TopPipeImg,
     passed = False\<rparr>,
     \<lparr>x = - 18, y = 416, width = 64, height = 512, img = BottomPipeImg,
     passed = False\<rparr>,
     \<lparr>x = 156, y = - 256, width = 64, height = 512, img = TopPipeImg,
     passed = False\<rparr>,
     \<lparr>x = 156, y = 416, width = 64, height = 512, img = BottomPipeImg,
     passed = False\<rparr>],
     score = 0, gameOver = False, placePipesInterval = True, frameIndex = 3,
     frameTick = 3, loaded = True, running = True, showMenu = False,
     checks = 4, stepRequested = True\<rparr>"
  unfolding approaching_def ticks10_def cruising_eq
  by (simp add: eval_simps spawnPipePair_def BOARD_W_def BOARD_H_def PIPE_H_def PIPE_X_def
      del: exec.simps(1))

lemma beyond_eq:
  "beyond =
     \<lparr>bird = \<lparr>x = 45, y = 320, width = 34, height = 24\<rparr>,
     velocityY = 6305039478318697 / 1125899906842624,
     pipes =
     [\<lparr>x = - 46, y = - 256, width = 64, height = 512, img = TopPipeImg,
     passed = True\<rparr>,
     \<lparr>x = - 46, y = 416, width = 64, height = 512, img = BottomPipeImg,
     passed = True\<rparr>,
     \<lparr>x = 128, y = - 256, width = 64, height = 512, img = TopPipeImg,
     passed = False\<rparr>,
     \<lparr>x = 128, y = 416, width = 64, height = 512, img = BottomPipeImg,
     passed = False\<rparr>],
     score = 1, gameOver = False, placePipesInterval = True, frameIndex = 1,
     frameTick = 5, loaded = True, running = True, showMenu = False,
     checks = 4, stepRequested = True\<rparr>"
  unfolding beyond_def ticks10_def approaching_eq
  by (simp add: eval_simps spawnPipePair_def BOARD_W_def BOARD_H_def PIPE_H_def PIPE_X_def
      del: exec.simps(1))

lemma leaving_eq:
  "leaving =
     \<lparr>bird = \<lparr>x = 45, y = 284, width = 34, height = 24\<rparr>,
     velocityY = - (5404319552844593 / 2251799813685248),
     pipes =
     [\<lparr>x = - 64, y = - 256, width = 64, height = 512, img = TopPipeImg,
     passed = True\<rparr>,
     \<lparr>x = - 64, y = 416, width = 64, height = 512, img = BottomPipeImg,
     passed = True\<rparr>,
     \<lparr>x = 110, y = - 256, width = 64, height = 512, img = TopPipeImg,
     passed = False\<rparr>,
     \<lparr>x = 110, y = 416, width = 64, height = 512, img = BottomPipeImg,
     passed = False\<rparr>],
     score = 1, gameOver = False, placePipesInterval = True, frameIndex = 3,
     frameTick = 2, loaded = True, running = True, showMenu = False,
     checks = 4, stepRequested = True\<rparr>"
  unfolding leaving_def beyond_eq
  by (simp add: eval_simps spawnPipePair_def BOARD_W_def BOARD_H_def PIPE_H_def PIPE_X_def
      del: exec.simps(1))



lemma warming_eq:
  "warming =
     \<lparr>bird = \<lparr>x = 45, y = 5650610157466419 / 17592186044416, width = 34, height = 24\<rparr>,
      velocityY = 3602879701896397 / 4503599627370496,
      pipes =
        [\<lparr>x = 356, y = - 256, width = 64, height = 512, img = TopPipeImg, passed = False\<rparr>,
         \<lparr>x = 356, y = 416, width = 64, height = 512, img = BottomPipeImg, passed = False\<rparr>],
      score = 0, gameOver = False, placePipesInterval = True, frameIndex = 0,
      frameTick = 2, loaded = True, running = True, showMenu = False,
      checks = 4, stepRequested = True\<rparr>"
  unfolding warming_def started_eq
  by (simp add: eval_simps del: exec.simps(1))

lemma draw002_eq: "draw002 = 1152921504606847 / 576460752303423488"
  by (simp add: draw002_def fl_eval)

lemma reachable_started: "reachable started"
  unfolding started_def
  by (intro reachable_run reach_initial) (simp add: loading_def)

lemma reachable_warming: "reachable warming"
  unfolding warming_def
  by (intro reachable_run reachable_started) simp

lemma reachable_menu: "reachable menu"
  unfolding menu_def
  by (intro reachable_run reach_initial) (simp add: loading_def)

lemma reachable_falling: "reachable falling"
  unfolding falling_def
  by (intro reachable_run reachable_started) (simp add: ticks10_def)

lemma reachable_crashed: "reachable crashed"
  unfolding crashed_def
  by (intro reach_exec reachable_falling) simp

lemma reachable_cruising: "reachable cruising"
  unfolding cruising_def
  by (intro reachable_run reachable_started) (simp add: period_def ticks10_def)

lemma reachable_approaching: "reachable approaching"
  unfolding approaching_def
  by (intro reachable_run reachable_cruising) (simp add: ticks10_def)

lemma reachable_beyond: "reachable beyond"
  unfolding beyond_def
  by (intro reachable_run reachable_approaching) (simp add: ticks10_def)

lemma reachable_leaving: "reachable leaving"
  unfolding leaving_def
  by (intro reachable_run reachable_beyond) simp



subsection \<open>A tick of a running game\<close>

lemma tick_running:
  assumes "game_inv s" and "running s"
  shows "velocityY (exec Tick s) = fl (velocityY s + gravity)"
    and "bird (exec Tick s) = (bird s)\<lparr>y := fl (y (bird s) + fl (velocityY s + gravity))\<rparr>"
    and "pipes (exec Tick s) = removeOffscreen (map (passPipe (bird (exec Tick s))) (pipes s))"
    and "score (exec Tick s) =
          score s +
          (1 / 2) * real (length (filter (\<lambda>p. crossed (bird (exec Tick s)) (movePipe p)) (pipes s)))"
    and "gameOver (exec Tick s) \<longleftrightarrow>
          (\<exists>p\<in>set (pipes s). detectCollision (bird (exec Tick s)) (movePipe p)) \<or>
          y (bird (exec Tick s)) > BOARD_H - BIRD_H"
    and "running (exec Tick s) = (\<not> gameOver (exec Tick s))"
    and "placePipesInterval (exec Tick s) = (placePipesInterval s \<and> \<not> gameOver (exec Tick s))"
proof -
  have rq: "stepRequested s" and ng: "\<not> gameOver s"
    using assms by (simp_all add: game_inv_def)
  have r: "running (s\<lparr>stepRequested := False\<rparr>)"
    using assms(2) by simp
  have e: "exec Tick s = step (s\<lparr>stepRequested := False\<rparr>)"
    using rq by simp
  note f = step_running [OF r]
  show "velocityY (exec Tick s) = fl (velocityY s + gravity)"
    unfolding e by (simp add: f(1))
  show "bird (exec Tick s) = (bird s)\<lparr>y := fl (y (bird s) + fl (velocityY s + gravity))\<rparr>"
    unfolding e by (simp add: f(2))
  show "pipes (exec Tick s) = removeOffscreen (map (passPipe (bird (exec Tick s))) (pipes s))"
    unfolding e using f(3) by simp
  show "score (exec Tick s) =
          score s +
          (1 / 2) * real (length (filter (\<lambda>p. crossed (bird (exec Tick s)) (movePipe p)) (pipes s)))"
    unfolding e using f(4) by simp
  show "gameOver (exec Tick s) \<longleftrightarrow>
          (\<exists>p\<in>set (pipes s). detectCollision (bird (exec Tick s)) (movePipe p)) \<or>
          y (bird (exec Tick s)) > BOARD_H - BIRD_H"
    unfolding e using f(5) ng by simp
  show "running (exec Tick s) = (\<not> gameOver (exec Tick s))"
    unfolding e using f(6) by simp
  show "placePipesInterval (exec Tick s) = (placePipesInterval s \<and> \<not> gameOver (exec Tick s))"
    unfolding e using f(7) by simp
qed

subsection \<open>After the game is over\<close>

lemma checkLoaded_sel [simp]:
  "pipes (checkLoaded s) = pipes s" "gameOver (checkLoaded s) = gameOver s"
  "score (checkLoaded s) = score s" "running (checkLoaded s) = running s"
  "bird (checkLoaded s) = bird s" "velocityY (checkLoaded s) = velocityY s"
  by (simp_all add: checkLoaded_def Let_def)

lemma frozen_exec:
  assumes "game_inv s" and "gameOver s" and "\<not> restarts e"
  shows "game_inv (exec e s) \<and> gameOver (exec e s) \<and> pipes (exec e s) = pipes s"
proof -
  have nr: "\<not> running s" "\<not> stepRequested s" "\<not> placePipesInterval s"
    using assms(1,2) by (auto simp add: game_inv_def)
  show ?thesis
  proof (cases e)
    case Tick
    then show ?thesis using assms nr by simp
  next
    case IdleFrame
    then show ?thesis using assms by (simp add: idleLoop_def inv_animate)
  next
    case (SpawnTimer r)
    then show ?thesis using assms nr by simp
  next
    case (Flap r)
    then show ?thesis using assms(3) by simp
  next
    case (StartButton r)
    then show ?thesis using assms(3) by simp
  next
    case AssetCallback
    then show ?thesis using assms by (simp add: inv_checkLoaded)
  qed
qed

lemma frozen_run:
  assumes "game_inv s" and "gameOver s" and "list_all (\<lambda>e. \<not> restarts e) es"
  shows "gameOver (run es s) \<and> pipes (run es s) = pipes s"
  using assms
proof (induction es arbitrary: s)
  case Nil
  then show ?case by simp
next
  case (Cons e es)
  from Cons.prems have ne: "\<not> restarts e" and rest: "list_all (\<lambda>e. \<not> restarts e) es"
    by simp_all
  from frozen_exec [OF Cons.prems(1,2) ne] Cons.IH [of "exec e s"] rest
  show ?case by simp
qed

lemma startGame_fresh:
  "score (startGame r s) = 0"
  "velocityY (startGame r s) = 0"
  "bird (startGame r s) = \<lparr>x = BIRD_X, y = BIRD_Y, width = BIRD_W, height = BIRD_H\<rparr>"
  "running (startGame r s)"
  "\<not> gameOver (startGame r s)"
  "placePipesInterval (startGame r s)"
  "pipes (startGame r s) =
     [\<lparr>x = PIPE_X, y = fl (- PIPE_H / 4 - fl (r * (PIPE_H / 2))),
       width = PIPE_W, height = PIPE_H, img = TopPipeImg, passed = False\<rparr>,
      \<lparr>x = PIPE_X,
       y = fl (fl (fl (- PIPE_H / 4 - fl (r * (PIPE_H / 2))) + PIPE_H) + BOARD_H / 4),
       width = PIPE_W, height = PIPE_H, img = BottomPipeImg, passed = False\<rparr>]"
  by (simp_all add: startGame_def setRunning_def spawnPipePair_def Let_def)

lemma gap_error:
  assumes "- 384 \<le> yt" and "yt \<le> - 128"
  shows "\<bar>fl (fl (yt + 512) + 160) - (yt + 512) - 160\<bar> \<le> 1 / 2 ^ 43"
proof -
  have m: "\<bar>yt + 512\<bar> < 2 ^ 53"
    using assms by simp
  have lo: "128 \<le> fl (yt + 512)"
    using fl_ge_int [of 128 "yt + 512"] assms(1) m by simp
  have hi: "fl (yt + 512) \<le> 384"
    using fl_le_int [of "yt + 512" 384] assms(2) m by simp
  have "\<bar>fl (yt + 512) - (yt + 512)\<bar> \<le> \<bar>yt + 512\<bar> / 2 ^ 53"
    by (rule fl_error)
  also have "\<dots> \<le> 384 / 2 ^ 53"
    using assms by (intro divide_right_mono) simp_all
  finally have e1: "\<bar>fl (yt + 512) - (yt + 512)\<bar> \<le> 384 / 2 ^ 53" .
  have "\<bar>fl (fl (yt + 512) + 160) - (fl (yt + 512) + 160)\<bar> \<le> \<bar>fl (yt + 512) + 160\<bar> / 2 ^ 53"
    by (rule fl_error)
  also have "\<dots> \<le> 544 / 2 ^ 53"
    using lo hi by (intro divide_right_mono) simp_all
  finally have e2: "\<bar>fl (fl (yt + 512) + 160) - (fl (yt + 512) + 160)\<bar> \<le> 544 / 2 ^ 53" .
  have "\<bar>fl (fl (yt + 512) + 160) - (yt + 512) - 160\<bar> \<le> 384 / 2 ^ 53 + 544 / 2 ^ 53"
    using e1 e2 by linarith
  also have "\<dots> \<le> 1 / 2 ^ 43"
    by simp
  finally show ?thesis .
qed

lemma pairs_ok_nth:
  assumes "pairs_ok ps" and "2 * k + 1 < length ps"
  shows "x (ps ! (2 * k)) = x (ps ! (2 * k + 1)) \<and>
         y (ps ! (2 * k + 1)) = fl (fl (y (ps ! (2 * k)) + height (ps ! (2 * k))) + BOARD_H / 4) \<and>
         - PIPE_H / 4 - PIPE_H / 2 \<le> y (ps ! (2 * k)) \<and> y (ps ! (2 * k)) \<le> - PIPE_H / 4 \<and>
         img (ps ! (2 * k)) = TopPipeImg \<and> img (ps ! (2 * k + 1)) = BottomPipeImg"
  using assms
proof (induction ps arbitrary: k rule: pairs_ok.induct)
  case 1
  then show ?case by simp
next
  case (2 p)
  then show ?case by simp
next
  case (3 t b ps)
  show ?case
  proof (cases k)
    case 0
    then show ?thesis using "3.prems" by simp
  next
    case (Suc j)
    then show ?thesis using "3.prems" "3.IH" [of j] by simp
  qed
qed

lemma removeOffscreen_drop_pairs:
  "pairs_ok ps \<Longrightarrow> \<exists>n. removeOffscreen ps = drop (2 * n) ps"
proof (induction ps rule: pairs_ok.induct)
  case 1
  then show ?case by simp
next
  case (2 p)
  then show ?case by simp
next
  case (3 t b ps)
  show ?case
  proof (cases "x t < - PIPE_W")
    case True
    from 3 obtain n where "removeOffscreen ps = drop (2 * n) ps" by auto
    then have "removeOffscreen (t # b # ps) = drop (2 * Suc n) (t # b # ps)"
      using True "3.prems" by simp
    then show ?thesis by blast
  next
    case False
    then have "removeOffscreen (t # b # ps) = drop (2 * 0) (t # b # ps)" by simp
    then show ?thesis by blast
  qed
qed

lemma removeOffscreen_sorted_onscreen:
  assumes "sorted (map x ps)" and "p \<in> set (removeOffscreen ps)"
  shows "\<not> x p < - PIPE_W"
  using assms
proof (induction ps)
  case Nil
  then show ?case by simp
next
  case (Cons q qs)
  show ?case
  proof (cases "x q < - PIPE_W")
    case True
    then show ?thesis using Cons by simp
  next
    case False
    then show ?thesis using Cons.prems by auto
  qed
qed


lemma menu_eq:
  "menu = initial\<lparr>loaded := True, checks := 4\<rparr>"
  by (simp add: menu_def loading_def initial_def checkLoaded_def Let_def)

section \<open>The claims\<close>

declare exec.simps(1) [simp del]

text \<open>
  C1 as stated, that the new velocity is exactly velocity + g for any prior velocity,
  fails: the sum is rounded to a double. In the reachable state \<open>warming\<close>, two ticks after
  the start, the velocity is the double 0.8; the next tick stores the double
  1.2000000000000002, which is not the sum of the doubles 0.8 and 0.4. At the velocity
  \<open>10^16\<close> the tick leaves the velocity unchanged.
\<close>

theorem exact_velocity_counterexample:
  "reachable warming \<and> running warming \<and>
   velocityY (step warming) \<noteq> velocityY warming + gravity \<and>
   velocityY (step (started\<lparr>velocityY := 10000000000000000\<rparr>)) = 10000000000000000"
proof -
  have r: "running warming" "running (started\<lparr>velocityY := 10000000000000000\<rparr>)"
    by (simp_all add: warming_eq started_eq)
  have "velocityY (step warming) = 1351079888211149 / 1125899906842624"
    by (simp add: step_running(1) [OF r(1)]) (simp add: warming_eq gravity_eq fl_eval)
  moreover have "velocityY warming + gravity = 10808639105689191 / 9007199254740992"
    by (simp add: warming_eq gravity_eq)
  moreover
  have "velocityY (step (started\<lparr>velocityY := 10000000000000000\<rparr>)) = 10000000000000000"
    by (simp add: step_running(1) [OF r(2)]) (simp add: started_eq gravity_eq fl_eval)
  ultimately show ?thesis
    using reachable_warming r(1) by simp
qed

text \<open>
  C1, amended. On every tick of a running game the gravity constant is first added to
  the vertical velocity, and the new velocity is then added to the bird's y position,
  each sum being rounded to the nearest double. There is no cap on the velocity: as long
  as the sums stay in the range of the finite doubles, the new velocity differs from
  velocity + g by the rounding only, at most \<open>\<bar>velocity + g\<bar> / 2^53\<close>, whatever the prior
  velocity.
\<close>

theorem physics_tick:
  assumes "running s"
    and "\<bar>velocityY s + gravity\<bar> < 2 ^ 1023"
    and "\<bar>y (bird s) + fl (velocityY s + gravity)\<bar> < 2 ^ 1023"
  shows "velocityY (step s) = fl (velocityY s + gravity) \<and>
         y (bird (step s)) = fl (y (bird s) + velocityY (step s)) \<and>
         \<bar>velocityY (step s) - (velocityY s + gravity)\<bar> \<le> \<bar>velocityY s + gravity\<bar> / 2 ^ 53 \<and>
         \<bar>y (bird (step s)) - (y (bird s) + velocityY (step s))\<bar> \<le>
           \<bar>y (bird s) + velocityY (step s)\<bar> / 2 ^ 53"
  using assms(1) fl_error [of "velocityY s + gravity"]
    fl_error [of "y (bird s) + fl (velocityY s + gravity)"]
  by (simp add: step_running)

theorem physics_tick_witness:
  "running (started\<lparr>velocityY := 1000000\<rparr>) \<and>
   velocityY (step (started\<lparr>velocityY := 1000000\<rparr>)) = 8589938027973837 / 8589934592 \<and>
   y (bird (step (started\<lparr>velocityY := 1000000\<rparr>))) = 8592686807043277 / 8589934592 \<and>
   \<bar>velocityY (step (started\<lparr>velocityY := 1000000\<rparr>)) - (1000000 + gravity)\<bar>
     \<le> \<bar>1000000 + gravity\<bar> / 2 ^ 53"
proof -
  let ?s = "started\<lparr>velocityY := 1000000\<rparr>"
  have r: "running ?s"
    by (simp add: started_eq)
  have vs: "velocityY ?s = 1000000"
    by simp
  have v: "fl (velocityY ?s + gravity) = 8589938027973837 / 8589934592"
    unfolding vs by (simp add: gravity_eq fl_eval)
  have b1: "\<bar>velocityY ?s + gravity\<bar> < 2 ^ 1023"
    unfolding vs by (simp add: gravity_eq)
  have b2: "\<bar>y (bird ?s) + fl (velocityY ?s + gravity)\<bar> < 2 ^ 1023"
    unfolding v by (simp add: started_eq)
  have yv: "fl (y (bird ?s) + 8589938027973837 / 8589934592) = 8592686807043277 / 8589934592"
    by (simp add: started_eq fl_eval)
  note p = physics_tick [OF r b1 b2]
  from p have "velocityY (step ?s) = fl (velocityY ?s + gravity)"
    by blast
  then have e1: "velocityY (step ?s) = 8589938027973837 / 8589934592"
    unfolding v .
  from p have "y (bird (step ?s)) = fl (y (bird ?s) + velocityY (step ?s))"
    by blast
  then have e2: "y (bird (step ?s)) = 8592686807043277 / 8589934592"
    unfolding e1 yv .
  from p have "\<bar>velocityY (step ?s) - (velocityY ?s + gravity)\<bar> \<le> \<bar>velocityY ?s + gravity\<bar> / 2 ^ 53"
    by blast
  then have e3: "\<bar>velocityY (step ?s) - (1000000 + gravity)\<bar> \<le> \<bar>1000000 + gravity\<bar> / 2 ^ 53"
    unfolding vs .
  show ?thesis
    using r e1 e2 e3 by blast
qed

text \<open>
  C2. In a reachable state a pipe is flagged as passed exactly when the bird's left edge is
  beyond the pipe's right edge. A tick of a running game flags every unflagged pipe that
  the bird's left edge has passed after the move, adds one half to the score for each of
  them and for no other pipe, and leaves the flag of a flagged pipe set. No event of a
  running game lowers the score.
\<close>

theorem score_once_per_pipe:
  assumes "reachable s" and "running s"
  shows "(\<forall>p\<in>set (pipes s). passed p \<longleftrightarrow> x (bird s) > x p + width p) \<and>
         pipes (exec Tick s) = removeOffscreen (map (passPipe (bird (exec Tick s))) (pipes s)) \<and>
         (\<forall>p\<in>set (pipes s).
            passed (passPipe (bird (exec Tick s)) p) \<longleftrightarrow>
              passed p \<or> x (bird s) > (x p - 2) + width p) \<and>
         score (exec Tick s) =
           score s +
           (1 / 2) * real (length (filter (\<lambda>p. \<not> passed p \<and> x (bird s) > (x p - 2) + width p)
                                     (pipes s))) \<and>
         (\<forall>e. score s \<le> score (exec e s))"
proof -
  have inv: "game_inv s" using assms(1) by (rule reachable_inv)
  note t = tick_running [OF inv assms(2)]
  have bx: "x (bird (exec Tick s)) = x (bird s)" by (simp add: t(2))
  have flags: "\<forall>p\<in>set (pipes s). passed p \<longleftrightarrow> x (bird s) > x p + width p"
    using inv by (simp add: game_inv_def list_all_iff pipe_ok_def)
  have cr: "(\<lambda>p. crossed (bird (exec Tick s)) (movePipe p)) =
            (\<lambda>p. \<not> passed p \<and> x (bird s) > (x p - 2) + width p)"
    by (simp add: crossed_def movePipe_def bx fun_eq_iff)
  have sc: "score (exec Tick s) =
           score s +
           (1 / 2) * real (length (filter (\<lambda>p. \<not> passed p \<and> x (bird s) > (x p - 2) + width p)
                                     (pipes s)))"
    using t(4) unfolding cr .
  have mono: "score s \<le> score (exec e s)" for e
  proof (cases e)
    case Tick
    then show ?thesis using sc by simp
  next
    case IdleFrame
    then show ?thesis by (simp add: idleLoop_def)
  next
    case (SpawnTimer r)
    then show ?thesis by (simp add: spawnPipePair_def Let_def)
  next
    case (Flap r)
    then show ?thesis using inv assms(2) by (simp add: flap_def game_inv_def)
  next
    case (StartButton r)
    then show ?thesis using inv assms(2) by (simp add: game_inv_def)
  next
    case AssetCallback
    then show ?thesis by simp
  qed
  show ?thesis
    using flags t(3) sc mono by (simp add: passed_passPipe bx)
qed

theorem score_once_per_pipe_witness:
  "reachable approaching \<and> running approaching \<and>
   map passed (pipes approaching) = [False, False, False, False] \<and>
   map passed (pipes (exec Tick approaching)) = [True, True, False, False] \<and>
   score approaching = 0 \<and> score (exec Tick approaching) = 1 \<and>
   score (exec Tick (exec Tick approaching)) = 1"
proof -
  have r: "running approaching" by (simp add: approaching_eq)
  have "score (exec Tick approaching) = 1"
    using score_once_per_pipe [OF reachable_approaching r]
    by (simp add: approaching_eq)
  moreover have "map passed (pipes (exec Tick approaching)) = [True, True, False, False]"
    using score_once_per_pipe [OF reachable_approaching r]
    by (simp add: approaching_eq passPipe_literal PIPE_W_def)
  moreover have "score (exec Tick (exec Tick approaching)) = 1"
    by (simp add: approaching_eq eval_simps)
  ultimately show ?thesis
    using r reachable_approaching by (simp add: approaching_eq)
qed





text \<open>
  C5 as stated, that the gap between the lower and the upper pipe of a pair is exactly
  \<open>openingSpace\<close>, fails: the two additions that give the y of the lower pipe are rounded.
  For the draw 0.002 of \<open>Math.random()\<close> in the Start button's handler, the pair of the
  reachable state has the gap \<open>160 + 2^-44\<close>.
\<close>

theorem exact_gap_counterexample:
  "0 \<le> draw002 \<and> draw002 < 1 \<and> reachable (exec (StartButton draw002) menu) \<and>
   length (pipes (exec (StartButton draw002) menu)) = 2 \<and>
   BOARD_H / 4 = 160 \<and>
   y (pipes (exec (StartButton draw002) menu) ! 1) -
     (y (pipes (exec (StartButton draw002) menu) ! 0) +
      height (pipes (exec (StartButton draw002) menu) ! 0)) =
   160 + 1 / 2 ^ 44"
proof -
  have d: "0 \<le> draw002" "draw002 < 1"
    by (simp_all add: draw002_eq)
  have "reachable (exec (StartButton draw002) menu)"
    using d by (intro reach_exec reachable_menu) simp
  moreover have "pipes (exec (StartButton draw002) menu) =
      [\<lparr>x = 360, y = - (2260807012939989 / 17592186044416), width = 64, height = 512,
        img = TopPipeImg, passed = False\<rparr>,
       \<lparr>x = 360, y = 2390285502226891 / 4398046511104, width = 64, height = 512,
        img = BottomPipeImg, passed = False\<rparr>]"
    by (simp add: menu_eq initial_def startGame_fresh)
       (simp add: draw002_eq game_consts fl_eval)
  ultimately show ?thesis
    using d by (simp add: BOARD_H_def)
qed

text \<open>
  C5, amended. A spawn with a draw \<open>r\<close> in [0, 1) appends exactly two pipes: the upper one
  at \<open>y = gapY\<close>, the double nearest to \<open>-H/4 - r * (H/2)\<close>, which lies between \<open>-H/4 - H/2\<close> and
  \<open>-H/4\<close>, both included; the lower one at \<open>y = gapY + H + openingSpace\<close> with both sums
  rounded to the nearest double, \<open>openingSpace\<close> being a quarter of the board height; both
  at the right edge of the board, with the same width and height and not passed. In every
  reachable state the pipes at positions 2k and 2k+1 are an upper and a lower pipe with
  the same x, and the gap between them is \<open>openingSpace\<close> up to the rounding of the two sums,
  at most \<open>2^-43\<close>.
\<close>

theorem spawn_pair_geometry:
  assumes "0 \<le> r" and "r < 1"
  shows "(\<exists>t b. pipes (spawnPipePair r s) = pipes s @ [t, b] \<and>
            y t = fl (- PIPE_H / 4 - fl (r * (PIPE_H / 2))) \<and>
            - PIPE_H / 4 - PIPE_H / 2 \<le> y t \<and> y t \<le> - PIPE_H / 4 \<and>
            y b = fl (fl (y t + PIPE_H) + BOARD_H / 4) \<and>
            \<bar>y b - (y t + PIPE_H) - BOARD_H / 4\<bar> \<le> 1 / 2 ^ 43 \<and>
            x t = BOARD_W \<and> x b = BOARD_W \<and>
            width t = PIPE_W \<and> width b = PIPE_W \<and>
            height t = PIPE_H \<and> height b = PIPE_H \<and>
            \<not> passed t \<and> \<not> passed b) \<and>
         (reachable s \<longrightarrow>
            (\<forall>k. 2 * k + 1 < length (pipes s) \<longrightarrow>
               y (pipes s ! (2 * k + 1)) =
                 fl (fl (y (pipes s ! (2 * k)) + height (pipes s ! (2 * k))) + BOARD_H / 4) \<and>
               \<bar>y (pipes s ! (2 * k + 1)) -
                  (y (pipes s ! (2 * k)) + height (pipes s ! (2 * k))) - BOARD_H / 4\<bar>
                 \<le> 1 / 2 ^ 43 \<and>
               x (pipes s ! (2 * k)) = x (pipes s ! (2 * k + 1)) \<and>
               img (pipes s ! (2 * k)) = TopPipeImg \<and>
               img (pipes s ! (2 * k + 1)) = BottomPipeImg))"
proof -
  let ?g = "fl (- PIPE_H / 4 - fl (r * (PIPE_H / 2)))"
  let ?t = "\<lparr>x = PIPE_X, y = ?g, width = PIPE_W, height = PIPE_H,
             img = TopPipeImg, passed = False\<rparr>"
  let ?b = "\<lparr>x = PIPE_X, y = fl (fl (?g + PIPE_H) + BOARD_H / 4),
             width = PIPE_W, height = PIPE_H, img = BottomPipeImg, passed = False\<rparr>"
  have gb: "- PIPE_H / 4 - PIPE_H / 2 \<le> ?g" "?g \<le> - PIPE_H / 4"
    using gapY_bounds [OF assms] by (simp_all add: PIPE_H_def)
  have ge: "\<bar>fl (fl (?g + PIPE_H) + BOARD_H / 4) - (?g + PIPE_H) - BOARD_H / 4\<bar> \<le> 1 / 2 ^ 43"
    using gap_error [of ?g] gb by (simp add: PIPE_H_def BOARD_H_def)
  have "pipes (spawnPipePair r s) = pipes s @ [?t, ?b]"
    by (simp add: spawnPipePair_def Let_def)
  then have spawn: "\<exists>t b. pipes (spawnPipePair r s) = pipes s @ [t, b] \<and>
            y t = fl (- PIPE_H / 4 - fl (r * (PIPE_H / 2))) \<and>
            - PIPE_H / 4 - PIPE_H / 2 \<le> y t \<and> y t \<le> - PIPE_H / 4 \<and>
            y b = fl (fl (y t + PIPE_H) + BOARD_H / 4) \<and>
            \<bar>y b - (y t + PIPE_H) - BOARD_H / 4\<bar> \<le> 1 / 2 ^ 43 \<and>
            x t = BOARD_W \<and> x b = BOARD_W \<and>
            width t = PIPE_W \<and> width b = PIPE_W \<and>
            height t = PIPE_H \<and> height b = PIPE_H \<and>
            \<not> passed t \<and> \<not> passed b"
    using gb ge by (intro exI [of _ ?t] exI [of _ ?b]) (simp add: PIPE_X_def)
  have pairs: "y (pipes s ! (2 * k + 1)) =
                 fl (fl (y (pipes s ! (2 * k)) + height (pipes s ! (2 * k))) + BOARD_H / 4) \<and>
               \<bar>y (pipes s ! (2 * k + 1)) -
                  (y (pipes s ! (2 * k)) + height (pipes s ! (2 * k))) - BOARD_H / 4\<bar>
                 \<le> 1 / 2 ^ 43 \<and>
               x (pipes s ! (2 * k)) = x (pipes s ! (2 * k + 1)) \<and>
               img (pipes s ! (2 * k)) = TopPipeImg \<and>
               img (pipes s ! (2 * k + 1)) = BottomPipeImg"
    if rs: "reachable s" and k: "2 * k + 1 < length (pipes s)" for k
  proof -
    have inv: "game_inv s" using rs by (rule reachable_inv)
    have pr: "pairs_ok (pipes s)" and ok: "list_all pipe_ok (pipes s)"
      using inv by (simp_all add: game_inv_def)
    note n = pairs_ok_nth [OF pr k]
    have "pipes s ! (2 * k) \<in> set (pipes s)"
      using k by simp
    then have h: "height (pipes s ! (2 * k)) = PIPE_H"
      using ok by (simp add: list_all_iff pipe_ok_def)
    have "\<bar>fl (fl (y (pipes s ! (2 * k)) + 512) + 160) - (y (pipes s ! (2 * k)) + 512) - 160\<bar>
        \<le> 1 / 2 ^ 43"
      using n by (intro gap_error) (simp_all add: PIPE_H_def)
    then show ?thesis
      using n h by (simp add: PIPE_H_def BOARD_H_def)
  qed
  show ?thesis
    using spawn pairs by blast
qed

theorem spawn_pair_geometry_witness:
  "(0::real) \<le> 1 / 4 \<and> (1::real) / 4 < 1 \<and>
   pipes (spawnPipePair (1 / 4) leaving) =
     pipes leaving @
       [\<lparr>x = 360, y = - 192, width = 64, height = 512, img = TopPipeImg, passed = False\<rparr>,
        \<lparr>x = 360, y = 480, width = 64, height = 512, img = BottomPipeImg, passed = False\<rparr>] \<and>
   reachable leaving \<and> length (pipes leaving) = 4 \<and>
   \<bar>y (pipes leaving ! 3) - (y (pipes leaving ! 2) + height (pipes leaving ! 2)) - 160\<bar>
     \<le> 1 / 2 ^ 43 \<and>
   x (pipes leaving ! 2) = x (pipes leaving ! 3)"
proof -
  have draw: "(0::real) \<le> 1 / 4" "(1::real) / 4 < 1"
    by simp_all
  from spawn_pair_geometry [OF draw, of leaving] reachable_leaving
  have "\<forall>k. 2 * k + 1 < length (pipes leaving) \<longrightarrow>
          \<bar>y (pipes leaving ! (2 * k + 1)) -
             (y (pipes leaving ! (2 * k)) + height (pipes leaving ! (2 * k))) - BOARD_H / 4\<bar>
            \<le> 1 / 2 ^ 43 \<and>
          x (pipes leaving ! (2 * k)) = x (pipes leaving ! (2 * k + 1))"
    by blast
  moreover have "2 * 1 + 1 < length (pipes leaving)"
    by (simp add: leaving_eq)
  ultimately have
    "\<bar>y (pipes leaving ! (2 * 1 + 1)) -
       (y (pipes leaving ! (2 * 1)) + height (pipes leaving ! (2 * 1))) - BOARD_H / 4\<bar>
       \<le> 1 / 2 ^ 43 \<and>
     x (pipes leaving ! (2 * 1)) = x (pipes leaving ! (2 * 1 + 1))"
    by blast
  then have
    "\<bar>y (pipes leaving ! 3) - (y (pipes leaving ! 2) + height (pipes leaving ! 2)) - 160\<bar>
       \<le> 1 / 2 ^ 43 \<and>
     x (pipes leaving ! 2) = x (pipes leaving ! 3)"
    by (simp add: BOARD_H_def)
  moreover have "pipes (spawnPipePair (1 / 4) leaving) =
     pipes leaving @
       [\<lparr>x = 360, y = - 192, width = 64, height = 512, img = TopPipeImg, passed = False\<rparr>,
        \<lparr>x = 360, y = 480, width = 64, height = 512, img = BottomPipeImg, passed = False\<rparr>]"
    by (simp add: spawnPipePair_def Let_def game_consts fl_eval)
  moreover have "length (pipes leaving) = 4"
    by (simp add: leaving_eq)
  ultimately show ?thesis
    using reachable_leaving by simp
qed

text \<open>
  C6. In a reachable state the pipes are ordered by x, oldest and leftmost first. A tick
  of a running game drops from the front of the moved sequence every pipe whose x is
  below \<open>-PIPE_W\<close>, as many as there are, so that afterwards no pipe of the sequence has
  its right edge left of 0.
\<close>

theorem offscreen_pipes_removed:
  assumes "reachable s" and "running s"
  shows "sorted (map x (pipes s)) \<and>
         pipes (exec Tick s) =
           dropWhile (\<lambda>p. x p < - PIPE_W) (map (passPipe (bird (exec Tick s))) (pipes s)) \<and>
         (\<forall>p\<in>set (pipes (exec Tick s)). \<not> x p + width p < 0)"
proof -
  have inv: "game_inv s" using assms(1) by (rule reachable_inv)
  have inv': "game_inv (exec Tick s)"
    using inv by (rule inv_exec) simp
  let ?moved = "map (passPipe (bird (exec Tick s))) (pipes s)"
  have srt: "sorted (map x (pipes s))"
    using inv by (simp add: game_inv_def)
  have srt': "sorted (map x ?moved)"
    using srt by (rule sorted_map_passPipe)
  have eq: "pipes (exec Tick s) = removeOffscreen ?moved"
    by (rule tick_running(3) [OF inv assms(2)])
  have "\<not> x p + width p < 0" if "p \<in> set (pipes (exec Tick s))" for p
  proof -
    have "\<not> x p < - PIPE_W"
      using removeOffscreen_sorted_onscreen [OF srt'] that unfolding eq by blast
    moreover have "width p = PIPE_W"
      using inv' that by (simp add: game_inv_def list_all_iff pipe_ok_def)
    ultimately show ?thesis by simp
  qed
  then show ?thesis
    using srt eq by (simp add: removeOffscreen_dropWhile)
qed

theorem offscreen_pipes_removed_witness:
  "reachable leaving \<and> running leaving \<and>
   map x (pipes leaving) = [- 64, - 64, 110, 110] \<and>
   map x (pipes (exec Tick leaving)) = [108, 108]"
proof -
  have r: "running leaving" by (simp add: leaving_eq)
  have b: "bird (exec Tick leaving) = \<lparr>x = 45, y = 282, width = 34, height = 24\<rparr>"
    by (simp add: leaving_eq eval_simps)
  have "map x (pipes (exec Tick leaving)) = [108, 108]"
    using offscreen_pipes_removed [OF reachable_leaving r]
    unfolding b by (simp add: leaving_eq passPipe_literal PIPE_W_def)
  then show ?thesis
    using reachable_leaving r by (simp add: leaving_eq)
qed



text \<open>
  C8 as stated, that pipes in flight go on scrolling and are removed on the ticks after
  game over, fails: in the reachable state \<open>crashed\<close> the game is over with two pipes at
  x = 284, and after three more animation frames both are still there at x = 284.
\<close>

theorem scroll_after_game_over_counterexample:
  "reachable crashed \<and> gameOver crashed \<and>
   map x (pipes crashed) = [284, 284] \<and>
   map x (pipes (run [Tick, Tick, Tick] crashed)) = [284, 284]"
proof -
  have "exec Tick crashed = crashed"
    by (simp add: crashed_eq exec.simps(1))
  then have "run [Tick, Tick, Tick] crashed = crashed"
    by simp
  then show ?thesis
    using reachable_crashed by (simp add: crashed_eq)
qed

text \<open>
  C8, amended. Every tick of a running game, also the one that flags game over, moves
  the pipes and drops those that have left the board. In a reachable state in which the
  game is over, the spawn interval is cleared and no animation frame of \<open>step\<close> is
  requested: the spawn timer and the tick change nothing, and no sequence of events
  without a restart changes the pipes, which neither scroll nor are removed. A flap
  restarts the game and replaces them by one fresh pair.
\<close>

theorem frozen_after_game_over:
  assumes "reachable s"
  shows "(running s \<longrightarrow>
            pipes (exec Tick s) =
              removeOffscreen (map (passPipe (bird (exec Tick s))) (pipes s))) \<and>
         (gameOver s \<longrightarrow>
            \<not> placePipesInterval s \<and> \<not> stepRequested s \<and> \<not> running s \<and>
            exec Tick s = s \<and> (\<forall>r. exec (SpawnTimer r) s = s) \<and>
            (\<forall>es. list_all (\<lambda>e. \<not> restarts e) es \<longrightarrow>
               pipes (run es s) = pipes s \<and> gameOver (run es s)) \<and>
            (\<forall>r. length (pipes (exec (Flap r) s)) = 2 \<and>
                 list_all (\<lambda>p. x p = PIPE_X \<and> \<not> passed p) (pipes (exec (Flap r) s)) \<and>
                 \<not> gameOver (exec (Flap r) s)))"
proof -
  have inv: "game_inv s" using assms by (rule reachable_inv)
  have over: "\<not> placePipesInterval s \<and> \<not> stepRequested s \<and> \<not> running s \<and>
            exec Tick s = s \<and> (\<forall>r. exec (SpawnTimer r) s = s) \<and>
            (\<forall>es. list_all (\<lambda>e. \<not> restarts e) es \<longrightarrow>
               pipes (run es s) = pipes s \<and> gameOver (run es s)) \<and>
            (\<forall>r. length (pipes (exec (Flap r) s)) = 2 \<and>
                 list_all (\<lambda>p. x p = PIPE_X \<and> \<not> passed p) (pipes (exec (Flap r) s)) \<and>
                 \<not> gameOver (exec (Flap r) s))"
    if go: "gameOver s"
  proof -
    have off: "\<not> placePipesInterval s" "\<not> stepRequested s" "\<not> running s"
      and on: "showMenu s" "loaded s"
      using inv go by (auto simp add: game_inv_def)
    have "pipes (run es s) = pipes s \<and> gameOver (run es s)"
      if "list_all (\<lambda>e. \<not> restarts e) es" for es
      using frozen_run [OF inv go that] by simp
    moreover have "flap r s = startGame r s" for r
      using off on by (simp add: flap_def)
    ultimately show ?thesis
      using off by (simp add: exec.simps(1) startGame_fresh)
  qed
  show ?thesis
    using over tick_running(3) [OF inv] by blast
qed

theorem frozen_after_game_over_witness:
  "reachable falling \<and> running falling \<and> map x (pipes falling) = [286, 286] \<and>
   gameOver (exec Tick falling) \<and> map x (pipes (exec Tick falling)) = [284, 284] \<and>
   reachable crashed \<and> gameOver crashed \<and> exec Tick crashed = crashed \<and>
   exec (SpawnTimer (1 / 2)) crashed = crashed \<and>
   pipes (run [Tick, IdleFrame, SpawnTimer (1 / 2), Tick] crashed) = pipes crashed \<and>
   map x (pipes (exec (Flap 0) crashed)) = [360, 360]"
proof -
  have go: "gameOver crashed" and rf: "running falling"
    by (simp_all add: crashed_eq falling_eq)
  have bf: "bird (exec Tick falling) =
      \<lparr>x = 45, y = 5421911738889011 / 8796093022208, width = 34, height = 24\<rparr>"
    by (simp add: falling_eq eval_simps)
  have "pipes (exec Tick falling) =
      removeOffscreen (map (passPipe (bird (exec Tick falling))) (pipes falling))"
    using frozen_after_game_over [OF reachable_falling] rf by blast
  then have "map x (pipes (exec Tick falling)) = [284, 284]"
    unfolding bf by (simp add: falling_eq passPipe_literal PIPE_W_def)
  moreover have "gameOver (exec Tick falling)"
    using go by (simp add: crashed_def)
  moreover note f = frozen_after_game_over [OF reachable_crashed, THEN conjunct2, rule_format, OF go]
  have fz: "\<forall>es. list_all (\<lambda>e. \<not> restarts e) es \<longrightarrow>
      pipes (run es crashed) = pipes crashed \<and> gameOver (run es crashed)"
    using f by blast
  have "pipes (run [Tick, IdleFrame, SpawnTimer (1 / 2), Tick] crashed) = pipes crashed"
    using fz [rule_format, of "[Tick, IdleFrame, SpawnTimer (1 / 2), Tick]"] by simp
  moreover have "exec Tick crashed = crashed" "exec (SpawnTimer (1 / 2)) crashed = crashed"
    using f by blast+
  moreover have "map x (pipes (exec (Flap 0) crashed)) = [360, 360]"
    by (simp add: crashed_eq flap_def startGame_fresh game_consts)
  ultimately show ?thesis
    using reachable_crashed reachable_falling go rf by (simp add: falling_eq)
qed

text \<open>
  C9. In every reachable state the number of pipes is even and the pipes at positions 2k
  and 2k+1 have the same x. A spawn appends exactly two pipes with the same x; a tick of a
  running game moves every pipe by the same 2 to the left and then drops an even number
  of pipes from the front, so that no half of a pair is left.
\<close>

theorem pipes_stay_paired:
  assumes "reachable s"
  shows "even (length (pipes s)) \<and>
         (\<forall>k. 2 * k + 1 < length (pipes s) \<longrightarrow>
            x (pipes s ! (2 * k)) = x (pipes s ! (2 * k + 1))) \<and>
         (\<forall>r. \<exists>t b. pipes (spawnPipePair r s) = pipes s @ [t, b] \<and> x t = x b) \<and>
         (running s \<longrightarrow>
            (\<forall>p. x (passPipe (bird (exec Tick s)) p) = x p - 2) \<and>
            (\<exists>n. pipes (exec Tick s) =
               drop (2 * n) (map (passPipe (bird (exec Tick s))) (pipes s))))"
proof -
  have inv: "game_inv s" using assms by (rule reachable_inv)
  have pr: "pairs_ok (pipes s)"
    using inv by (simp add: game_inv_def)
  have "\<exists>n. pipes (exec Tick s) = drop (2 * n) (map (passPipe (bird (exec Tick s))) (pipes s))"
    if "running s"
    unfolding tick_running(3) [OF inv that]
    by (intro removeOffscreen_drop_pairs pairs_ok_map_passPipe pr)
  moreover have "\<exists>t b. pipes (spawnPipePair r s) = pipes s @ [t, b] \<and> x t = x b" for r
    by (simp add: spawnPipePair_def Let_def)
  ultimately show ?thesis
    using pairs_ok_even [OF pr] pairs_ok_nth [OF pr] by simp
qed

theorem pipes_stay_paired_witness:
  "reachable leaving \<and> running leaving \<and>
   length (pipes leaving) = 4 \<and> x (pipes leaving ! 2) = x (pipes leaving ! 3) \<and>
   length (pipes (exec Tick leaving)) = 2 \<and>
   x (pipes (exec Tick leaving) ! 0) = x (pipes (exec Tick leaving) ! 1)"
proof -
  have r: "running leaving" by (simp add: leaving_eq)
  have "2 * 1 + 1 < length (pipes leaving)"
    by (simp add: leaving_eq)
  then have "x (pipes leaving ! (2 * 1)) = x (pipes leaving ! (2 * 1 + 1))"
    using pipes_stay_paired [OF reachable_leaving] by blast
  moreover have "length (pipes leaving) = 4"
    by (simp add: leaving_eq)
  moreover have "pipes (exec Tick leaving) =
      [\<lparr>x = 108, y = - 256, width = 64, height = 512, img = TopPipeImg, passed = False\<rparr>,
       \<lparr>x = 108, y = 416, width = 64, height = 512, img = BottomPipeImg, passed = False\<rparr>]"
    by (simp add: leaving_eq eval_simps)
  ultimately show ?thesis
    using reachable_leaving r by simp
qed

text \<open>
  C10. On a tick of a running game, reached from the start, a pipe that is already flagged
  as passed does not collide with the bird, and no pipe is both newly crossed and in
  collision. The bird's x and width do not change, the x of every pipe decreases, so a
  pipe that the bird's left edge has passed stays passed, and its flag stays set.
\<close>

theorem passed_pipe_cannot_collide:
  assumes "reachable s" and "running s" and "p \<in> set (pipes s)"
  shows "(passed p \<longrightarrow> \<not> detectCollision (bird (exec Tick s)) (movePipe p)) \<and>
         \<not> (crossed (bird (exec Tick s)) (movePipe p) \<and>
            detectCollision (bird (exec Tick s)) (movePipe p)) \<and>
         (passed p \<longrightarrow> passed (passPipe (bird (exec Tick s)) p)) \<and>
         x (bird (exec Tick s)) = x (bird s) \<and> width (bird (exec Tick s)) = width (bird s) \<and>
         x (movePipe p) < x p \<and> width (movePipe p) = width p \<and>
         (x (bird s) > x p + width p \<longrightarrow>
            x (bird (exec Tick s)) > x (movePipe p) + width (movePipe p))"
proof -
  have inv: "game_inv s" using assms(1) by (rule reachable_inv)
  have b: "x (bird (exec Tick s)) = x (bird s)" "width (bird (exec Tick s)) = width (bird s)"
    unfolding tick_running(2) [OF inv assms(2)] by simp_all
  have bx: "x (bird s) = BIRD_X"
    using inv by (simp add: game_inv_def)
  have fl: "passed p \<longleftrightarrow> BIRD_X > x p + width p"
    using inv assms(3) by (simp add: game_inv_def list_all_iff pipe_ok_def)
  show ?thesis
    using fl by (auto simp add: b bx detectCollision_def crossed_def movePipe_def passed_passPipe)
qed

theorem passed_pipe_cannot_collide_witness:
  "reachable beyond \<and> running beyond \<and> pipes beyond ! 0 \<in> set (pipes beyond) \<and>
   passed (pipes beyond ! 0) \<and>
   \<not> detectCollision (bird (exec Tick beyond)) (movePipe (pipes beyond ! 0)) \<and>
   reachable approaching \<and> running approaching \<and>
   pipes approaching ! 0 \<in> set (pipes approaching) \<and>
   crossed (bird (exec Tick approaching)) (movePipe (pipes approaching ! 0)) \<and>
   \<not> detectCollision (bird (exec Tick approaching)) (movePipe (pipes approaching ! 0))"
proof -
  have rb: "running beyond" and ra: "running approaching"
    by (simp_all add: beyond_eq approaching_eq)
  have mb: "pipes beyond ! 0 \<in> set (pipes beyond)"
    and ma: "pipes approaching ! 0 \<in> set (pipes approaching)"
    by (simp_all add: beyond_eq approaching_eq)
  have pb: "passed (pipes beyond ! 0)"
    by (simp add: beyond_eq)
  have ba: "bird (exec Tick approaching) =
      \<lparr>x = 45, y = 2448832297382707 / 8796093022208, width = 34, height = 24\<rparr>"
    by (simp add: approaching_eq eval_simps)
  have ca: "crossed (bird (exec Tick approaching)) (movePipe (pipes approaching ! 0))"
    unfolding ba by (simp add: approaching_eq crossed_literal)
  have "\<not> detectCollision (bird (exec Tick beyond)) (movePipe (pipes beyond ! 0))"
    using passed_pipe_cannot_collide [OF reachable_beyond rb mb] pb by blast
  moreover
  have "\<not> detectCollision (bird (exec Tick approaching)) (movePipe (pipes approaching ! 0))"
    using passed_pipe_cannot_collide [OF reachable_approaching ra ma] ca by blast
  ultimately show ?thesis
    using reachable_beyond reachable_approaching rb ra mb ma pb ca by simp
qed

end
